theory Spec2Isabelle
  imports Complex_Main
begin

section \<open>Python values\<close>

text \<open>
  A Python \<open>str\<close> is a sequence of Unicode code points. A character is modelled by its
  code point, so that one list element is one Python character (the regular expressions
  of the source replace character by character). ASCII literals are written through
  \<open>py\<close>.
\<close>

type_synonym pychar = nat
type_synonym pystr = "pychar list"

definition py :: "string \<Rightarrow> pystr" where
  "py s = map of_char s"

definition SLASH :: pychar where "SLASH = 47"
definition DOT :: pychar where "DOT = 46"
definition HYPHEN :: pychar where "HYPHEN = 45"
definition UNDERSCORE :: pychar where "UNDERSCORE = 95"
definition QMARK :: pychar where "QMARK = 63"
definition HASH :: pychar where "HASH = 35"
definition NEWLINE :: pychar where "NEWLINE = 10"

datatype py_error = IndexError | ValueError | AttributeError | OSError | OtherError pystr

text \<open>Python indexing \<open>xs[i]\<close>: a negative index counts from the end; out of range raises.\<close>

definition py_get :: "'a list \<Rightarrow> int \<Rightarrow> py_error + 'a" where
  "py_get xs i =
     (if 0 \<le> i \<and> i < int (length xs) then Inr (xs ! nat i)
      else if i < 0 \<and> - int (length xs) \<le> i then Inr (xs ! nat (int (length xs) + i))
      else Inl IndexError)"

text \<open>\<open>s.rstrip(c)\<close> for a one-character argument.\<close>

definition rstrip :: "pychar \<Rightarrow> pystr \<Rightarrow> pystr" where
  "rstrip c s = rev (dropWhile (\<lambda>x. x = c) (rev s))"

text \<open>\<open>s.split(c)\<close> for a one-character separator: one more piece than separators.\<close>

fun split_on :: "pychar \<Rightarrow> pystr \<Rightarrow> pystr list" where
  "split_on c [] = [[]]"
| "split_on c (x # xs) =
     (let r = split_on c xs
      in if x = c then [] # r else (x # hd r) # tl r)"

section \<open>The standard library, as far as the script calls it\<close>

text \<open>
  \<open>urllib.parse.urlparse\<close>, the Unicode tables behind \<open>\w\<close> and \<open>str.upper\<close>, and
  \<open>os.path.join\<close> and \<open>os.path.abspath\<close> (which depend on the platform and the working
  directory) are not part of the repository; they are parameters of the model.
  \<open>urlparse\<close> may raise (\<open>ValueError\<close> on a malformed bracketed host); \<open>isalnum\<close> is
  \<open>str.isalnum\<close> on one character. So is the file system: \<open>makedirs\<close> tells whether
  \<open>os.makedirs(d, exist_ok=True)\<close> raises for a directory, and \<open>open_write\<close> whether
  opening a path for writing and writing to it raises (a name too long, a directory
  that cannot be written); \<open>None\<close> is success. \<open>has_cache_mode\<close> tells which attribute
  names the enumeration \<open>CacheMode\<close> of the crawling library has.
\<close>

record parse_result =
  scheme :: pystr
  netloc :: pystr
  path :: pystr
  params :: pystr
  query :: pystr
  fragment :: pystr

record pylib =
  urlparse :: "pystr \<Rightarrow> py_error + parse_result"
  isalnum :: "pychar \<Rightarrow> bool"
  upper :: "pystr \<Rightarrow> pystr"
  path_join :: "pystr \<Rightarrow> pystr \<Rightarrow> pystr"
  abspath :: "pystr \<Rightarrow> pystr"
  makedirs :: "pystr \<Rightarrow> py_error option"
  open_write :: "pystr \<Rightarrow> py_error option"
  has_cache_mode :: "pystr \<Rightarrow> bool"

text \<open>\<open>\w\<close> of module \<open>re\<close> on a \<open>str\<close> pattern: alphanumeric or the underscore.\<close>

definition word_char :: "pylib \<Rightarrow> pychar \<Rightarrow> bool" where
  "word_char L c = (isalnum L c \<or> c = UNDERSCORE)"

section \<open>\<open>get_filename_from_url\<close>\<close>

text \<open>
  \<open>re.sub(r'[\?#].*$', '', filename)\<close>. The dot does not match a newline and, without
  \<open>re.MULTILINE\<close>, \<open>$\<close> matches at the end of the string and before a newline that
  ends it. So a \<open>?\<close> or \<open>#\<close> starts a match iff what follows the run of non-newline
  characters after it is empty or a single final newline; the match is then removed and
  that rest is kept. A \<open>?\<close> or \<open>#\<close> that starts no match is kept and the search goes on.
\<close>

definition dollar :: "pystr \<Rightarrow> bool" where
  "dollar r = (r = [] \<or> r = [NEWLINE])"

fun sub_query :: "pystr \<Rightarrow> pystr" where
  "sub_query [] = []"
| "sub_query (c # cs) =
     (let r = dropWhile (\<lambda>x. x \<noteq> NEWLINE) cs
      in if (c = QMARK \<or> c = HASH) \<and> dollar r then r else c # sub_query cs)"

text \<open>\<open>re.sub(r'[^\w\-\.]', '_', filename)\<close>.\<close>

definition keep_char :: "pylib \<Rightarrow> pychar \<Rightarrow> bool" where
  "keep_char L c = (word_char L c \<or> c = HYPHEN \<or> c = DOT)"

definition sub_invalid :: "pylib \<Rightarrow> pystr \<Rightarrow> pystr" where
  "sub_invalid L s = map (\<lambda>c. if keep_char L c then c else UNDERSCORE) s"

text \<open>Lines 61 to 71: what the function does with the name it has picked.\<close>

definition clean_filename :: "pylib \<Rightarrow> pystr \<Rightarrow> pystr" where
  "clean_filename L filename0 =
     (let filename1 = sub_query filename0;
          filename2 = (if filename1 = [] then py ''index'' else filename1)
      in sub_invalid L filename2)"

text \<open>
  Lines 36 to 59: the name is the last path component with its parent, or the path, or
  the next to last dot-separated piece of \<open>netloc\<close>. Each subscript of the source is a
  \<open>py_get\<close>, so that an index out of range is the \<open>IndexError\<close> Python raises.
\<close>

definition pick_filename :: "parse_result \<Rightarrow> py_error + pystr" where
  "pick_filename parsed_url =
     (let path1 = rstrip SLASH (path parsed_url)
      in if path1 \<noteq> [] \<and> SLASH \<in> set path1 then
           (let path_parts = split_on SLASH path1
            in case py_get path_parts (- 1) of
                 Inl e \<Rightarrow> Inl e
               | Inr last_part \<Rightarrow>
                   (case (if 2 \<le> length path_parts then py_get path_parts (- 2) else Inr []) of
                      Inl e \<Rightarrow> Inl e
                    | Inr parent_part \<Rightarrow>
                        if parent_part \<noteq> [] then Inr (parent_part @ [UNDERSCORE] @ last_part)
                        else Inr last_part))
         else if path1 \<noteq> [] then Inr path1
         else py_get (split_on DOT (netloc parsed_url)) (- 2))"

definition get_filename_from_url :: "pylib \<Rightarrow> pystr \<Rightarrow> py_error + pystr" where
  "get_filename_from_url L url =
     (case urlparse L url of
        Inl e \<Rightarrow> Inl e
      | Inr parsed_url \<Rightarrow>
          (case pick_filename parsed_url of
             Inl e \<Rightarrow> Inl e
           | Inr filename \<Rightarrow> Inr (clean_filename L filename)))"

text \<open>
  A fixed library for the examples: \<open>urlparse\<close> with the values Python returns for the
  URLs listed (any other URL is given the parse of \<open>https://example.com/other\<close>), ASCII
  letters and digits as alphanumeric, \<open>/\<close> as the path separator, \<open>/work\<close> as the
  working directory, a file system that accepts every directory and file, and a
  \<open>CacheMode\<close> with the members \<open>ENABLED\<close>, \<open>DISABLED\<close>, \<open>READ_ONLY\<close>, \<open>WRITE_ONLY\<close>
  and \<open>BYPASS\<close>.
\<close>

definition ex_parsed :: "string \<Rightarrow> string \<Rightarrow> parse_result" where
  "ex_parsed host p =
     \<lparr>scheme = py ''https'', netloc = py host, path = py p,
      params = [], query = [], fragment = []\<rparr>"

definition ex_urlparse :: "pystr \<Rightarrow> py_error + parse_result" where
  "ex_urlparse url =
     (if url = py ''https://localhost'' then Inr (ex_parsed ''localhost'' '''')
      else if url = py ''https://localhost/a'' then Inr (ex_parsed ''localhost'' ''/a'')
      else if url = py ''https://example.com'' then Inr (ex_parsed ''example.com'' '''')
      else if url = py ''https://example.com/'' then Inr (ex_parsed ''example.com'' ''/'')
      else if url = py ''https://console.groq.com/docs/libraries''
        then Inr (ex_parsed ''console.groq.com'' ''/docs/libraries'')
      else if url = py ''https://[''  then Inl ValueError
      else Inr (ex_parsed ''example.com'' ''/other''))"

definition ex_isalnum :: "pychar \<Rightarrow> bool" where
  "ex_isalnum c = ((48 \<le> c \<and> c \<le> 57) \<or> (65 \<le> c \<and> c \<le> 90) \<or> (97 \<le> c \<and> c \<le> 122))"

definition ex_upper :: "pystr \<Rightarrow> pystr" where
  "ex_upper s = map (\<lambda>c. if 97 \<le> c \<and> c \<le> 122 then c - 32 else c) s"

definition ex_path_join :: "pystr \<Rightarrow> pystr \<Rightarrow> pystr" where
  "ex_path_join d f = d @ [SLASH] @ f"

definition ex_abspath :: "pystr \<Rightarrow> pystr" where
  "ex_abspath d = (if d = py ''./output'' then py ''/work/output'' else d)"

definition ex_has_cache_mode :: "pystr \<Rightarrow> bool" where
  "ex_has_cache_mode n = (n = py ''ENABLED'' \<or> n = py ''DISABLED'' \<or> n = py ''READ_ONLY''
                          \<or> n = py ''WRITE_ONLY'' \<or> n = py ''BYPASS'')"

definition ex_lib :: pylib where
  "ex_lib = \<lparr>urlparse = ex_urlparse, isalnum = ex_isalnum, upper = ex_upper,
             path_join = ex_path_join, abspath = ex_abspath,
             makedirs = (\<lambda>d. None), open_write = (\<lambda>p. None),
             has_cache_mode = ex_has_cache_mode\<rparr>"

section \<open>Command line arguments\<close>

text \<open>
  The namespace \<open>argparse\<close> returns. An option that may be left out is an \<open>option\<close>
  (Python's \<open>None\<close>); the \<open>choices\<close> of an option are a datatype; a \<open>float\<close> is
  only handed on to the library, never computed with, and is a \<open>real\<close> here.
\<close>

datatype filter_choice = Pruning | BM25 | LLM
datatype dispatcher_choice = Memory | Semaphore
datatype cache_choice = Enabled | Bypass | Refresh

record args =
  url :: pystr
  max_depth :: int
  max_pages :: "int option"
  include_external :: bool
  verbose :: bool
  url_patterns :: "pystr list option"
  allowed_domains :: "pystr list option"
  blocked_domains :: "pystr list option"
  allowed_content_types :: "pystr list option"
  content_filter :: "filter_choice option"
  pruning_threshold :: real
  threshold_type :: pystr
  min_word_threshold :: int
  user_query :: "pystr option"
  bm25_threshold :: real
  use_stemming :: bool
  llm_provider :: pystr
  llm_api_token :: "pystr option"
  llm_instruction :: pystr
  chunk_token_threshold :: int
  llm_verbose :: bool
  ignore_links :: bool
  ignore_images :: bool
  escape_html :: bool
  body_width :: int
  skip_internal_links :: bool
  save_markdown :: bool
  output_dir :: pystr
  enable_rate_limiter :: bool
  base_delay :: "real \<times> real"
  max_delay :: real
  max_retries :: int
  dispatcher :: dispatcher_choice
  memory_threshold :: real
  check_interval :: real
  max_concurrent :: int
  stream :: bool
  enable_monitor :: bool
  cache_mode :: cache_choice

text \<open>Truth of an optional list (\<open>if args.url_patterns:\<close>) and \<open>x or []\<close>.\<close>

definition truthy_list :: "'a list option \<Rightarrow> bool" where
  "truthy_list x = (case x of None \<Rightarrow> False | Some xs \<Rightarrow> xs \<noteq> [])"

definition or_empty_list :: "'a list option \<Rightarrow> 'a list" where
  "or_empty_list x = (case x of None \<Rightarrow> [] | Some xs \<Rightarrow> xs)"

text \<open>Truth of an optional string (\<open>if args.llm_api_token:\<close>).\<close>

definition truthy_str :: "pystr option \<Rightarrow> bool" where
  "truthy_str x = (case x of None \<Rightarrow> False | Some s \<Rightarrow> s \<noteq> [])"

section \<open>The objects \<open>main\<close> builds for the crawling library\<close>

text \<open>
  The classes of \<open>crawl4ai\<close> are not part of the repository. A constructor call of the
  script is the value of its keyword arguments: what the script hands to the library.
\<close>

datatype url_filter =
    URLPatternFilter "pystr list"
  | DomainFilter "pystr list" "pystr list"
  | ContentTypeFilter "pystr list"

record bfs_strategy =
  bfs_max_depth :: int
  bfs_include_external :: bool
  bfs_filter_chain :: "url_filter list option"
  bfs_max_pages :: "int option"

datatype opt_value = VBool bool | VInt int

record llm_config =
  provider :: pystr
  api_token :: "pystr option"

datatype filter_obj =
    PruningContentFilter real pystr int
  | BM25ContentFilter "pystr option" real bool
  | LLMContentFilter llm_config pystr int bool

record md_generator =
  gen_content_filter :: "filter_obj option"
  gen_options :: "(string \<times> opt_value) list"

record run_config =
  deep_crawl_strategy :: bfs_strategy
  cfg_verbose :: bool
  markdown_generator :: "md_generator option"
  cfg_stream :: bool
  cfg_cache_mode :: cache_choice

record rate_limiter =
  rl_base_delay :: "real \<times> real"
  rl_max_delay :: real
  rl_max_retries :: int

datatype monitor = CrawlerMonitor

datatype dispatcher_obj =
    MemoryAdaptiveDispatcher real real int "rate_limiter option" "monitor option"
  | SemaphoreDispatcher int "rate_limiter option" "monitor option"

text \<open>Lines 176 to 188: the list of filters.\<close>

definition build_filters :: "args \<Rightarrow> url_filter list" where
  "build_filters a =
     (let filters0 = [];
          filters1 = (if truthy_list (url_patterns a)
                      then filters0 @ [URLPatternFilter (the (url_patterns a))] else filters0);
          filters2 = (if truthy_list (allowed_domains a) \<or> truthy_list (blocked_domains a)
                      then filters1 @ [DomainFilter (or_empty_list (allowed_domains a))
                                                    (or_empty_list (blocked_domains a))]
                      else filters1);
          filters3 = (if truthy_list (allowed_content_types a)
                      then filters2 @ [ContentTypeFilter (the (allowed_content_types a))]
                      else filters2)
      in filters3)"

text \<open>
  Lines 190 to 203: the chain is built from the list whatever its length, and the
  strategy always receives it; \<open>max_pages\<close> is set afterwards when given.
\<close>

definition build_strategy :: "args \<Rightarrow> bfs_strategy" where
  "build_strategy a =
     (let filter_chain = build_filters a;
          strategy = \<lparr>bfs_max_depth = max_depth a,
                      bfs_include_external = include_external a,
                      bfs_filter_chain = Some filter_chain,
                      bfs_max_pages = None\<rparr>
      in case max_pages a of
           None \<Rightarrow> strategy
         | Some n \<Rightarrow> strategy\<lparr>bfs_max_pages := Some n\<rparr>)"

text \<open>Lines 206 to 216: the options dictionary, keys in the order they are set.\<close>

definition build_markdown_options :: "args \<Rightarrow> (string \<times> opt_value) list" where
  "build_markdown_options a =
     (if ignore_links a then [(''ignore_links'', VBool True)] else [])
     @ (if ignore_images a then [(''ignore_images'', VBool True)] else [])
     @ (if escape_html a then [(''escape_html'', VBool True)] else [])
     @ (if body_width a > 0 then [(''body_width'', VInt (body_width a))] else [])
     @ (if skip_internal_links a then [(''skip_internal_links'', VBool True)] else [])"

section \<open>What the script prints and writes\<close>

text \<open>
  The observable behaviour of \<open>main\<close> is the sequence of its effects: a line printed,
  a directory made, a file written. A printed line is the \<open>print\<close> statement it comes
  from with the values formatted into it. A directory or file appears among the effects
  when \<open>os.makedirs\<close> or \<open>open\<close> and \<open>write\<close> returned.
\<close>

datatype msg =
    MsgUsingPruning real pystr int
  | MsgWarnNoQuery
  | MsgUsingBM25 pystr real bool
  | MsgUsingLLM pystr int
  | MsgLLMInstruction pystr
  | MsgTokenFromArg
  | MsgTokenFromEnv pystr
  | MsgMarkdownWithFilter filter_choice
  | MsgMarkdownNoFilter
  | MsgMarkdownOptions "(string \<times> opt_value) list"
  | MsgRateLimiter "real \<times> real" real int
  | MsgMonitor
  | MsgMemoryDispatcher real int
  | MsgSemaphoreDispatcher int
  | MsgStreamingMode
  | MsgProcessing
  | MsgProcessed nat pystr int
  | MsgSavedFiltered pystr pystr
  | MsgSaved pystr pystr
  | MsgCrawlResults
  | MsgTotalPages nat
  | MsgDepth int nat
  | MsgUrl pystr
  | MsgMore nat
  | MsgSavedTo pystr
  | MsgNoMarkdown
  | MsgSavingMarkdown
  | MsgError py_error
  | MsgTraceback

datatype effect = Print msg | MakeDirs pystr | WriteFile pystr pystr

section \<open>\<open>main\<close>: configuration (lines 174 to 323)\<close>

text \<open>
  Lines 219 to 263. The LLM branch builds \<open>LLMConfig\<close> with the token of the command
  line, which may be \<open>None\<close>; the script reads no environment variable, it only forms
  the name of one for the message of line 263. \<open>split('/')[0]\<close> is the head of a list
  that is never empty.
\<close>

definition env_var_name :: "pylib \<Rightarrow> args \<Rightarrow> pystr" where
  "env_var_name L a =
     (let provider_prefix = upper L (hd (split_on SLASH (llm_provider a)))
      in provider_prefix @ py ''_API_KEY'')"

definition build_content_filter :: "args \<Rightarrow> filter_obj option" where
  "build_content_filter a =
     (case content_filter a of
        None \<Rightarrow> None
      | Some Pruning \<Rightarrow>
          Some (PruningContentFilter (pruning_threshold a) (threshold_type a)
                  (min_word_threshold a))
      | Some BM25 \<Rightarrow>
          Some (BM25ContentFilter (user_query a) (bm25_threshold a) (use_stemming a))
      | Some LLM \<Rightarrow>
          (let llm_cfg = \<lparr>provider = llm_provider a, api_token = llm_api_token a\<rparr>
           in Some (LLMContentFilter llm_cfg (llm_instruction a) (chunk_token_threshold a)
                      (llm_verbose a))))"

definition content_filter_prints :: "pylib \<Rightarrow> args \<Rightarrow> effect list" where
  "content_filter_prints L a =
     (case content_filter a of
        None \<Rightarrow> []
      | Some Pruning \<Rightarrow>
          [Print (MsgUsingPruning (pruning_threshold a) (threshold_type a)
                    (min_word_threshold a))]
      | Some BM25 \<Rightarrow>
          (if \<not> truthy_str (user_query a) then [Print MsgWarnNoQuery] else [])
          @ [Print (MsgUsingBM25
                      (if truthy_str (user_query a) then the (user_query a) else py ''None'')
                      (bm25_threshold a) (use_stemming a))]
      | Some LLM \<Rightarrow>
          [Print (MsgUsingLLM (llm_provider a) (chunk_token_threshold a)),
           Print (MsgLLMInstruction (llm_instruction a)),
           (if truthy_str (llm_api_token a) then Print MsgTokenFromArg
            else Print (MsgTokenFromEnv (env_var_name L a)))])"

text \<open>Lines 266 to 269.\<close>

definition build_md_generator :: "args \<Rightarrow> md_generator" where
  "build_md_generator a =
     \<lparr>gen_content_filter = build_content_filter a,
      gen_options = build_markdown_options a\<rparr>"

text \<open>Lines 271 to 277.\<close>

definition save_markdown_prints :: "args \<Rightarrow> effect list" where
  "save_markdown_prints a =
     (if save_markdown a then
        (case content_filter a of
           Some c \<Rightarrow> [Print (MsgMarkdownWithFilter c)]
         | None \<Rightarrow>
             [Print MsgMarkdownNoFilter]
             @ (if length (build_markdown_options a) > 0
                then [Print (MsgMarkdownOptions (build_markdown_options a))] else []))
      else [])"

text \<open>
  Lines 280 to 286: the generator reaches the library only with \<open>--save-markdown\<close>. This
  is the configuration once \<open>getattr(CacheMode, ...)\<close> has returned the member of the
  chosen name; the lookup itself, which may raise, is the step \<open>GetCacheMode\<close> below.
\<close>

definition build_config :: "args \<Rightarrow> run_config" where
  "build_config a =
     \<lparr>deep_crawl_strategy = build_strategy a,
      cfg_verbose = verbose a,
      markdown_generator = (if save_markdown a then Some (build_md_generator a) else None),
      cfg_stream = stream a,
      cfg_cache_mode = cache_mode a\<rparr>"

text \<open>Lines 289 to 297.\<close>

definition build_rate_limiter :: "args \<Rightarrow> rate_limiter option" where
  "build_rate_limiter a =
     (if enable_rate_limiter a
      then Some \<lparr>rl_base_delay = base_delay a, rl_max_delay = max_delay a,
                 rl_max_retries = max_retries a\<rparr>
      else None)"

text \<open>Lines 300 to 303.\<close>

definition build_monitor :: "args \<Rightarrow> monitor option" where
  "build_monitor a = (if enable_monitor a then Some CrawlerMonitor else None)"

text \<open>Lines 306 to 323.\<close>

definition build_dispatcher :: "args \<Rightarrow> dispatcher_obj" where
  "build_dispatcher a =
     (case dispatcher a of
        Memory \<Rightarrow>
          MemoryAdaptiveDispatcher (memory_threshold a) (check_interval a) (max_concurrent a)
            (build_rate_limiter a) (build_monitor a)
      | Semaphore \<Rightarrow>
          SemaphoreDispatcher (max_concurrent a) (build_rate_limiter a) (build_monitor a))"

definition dispatcher_prints :: "args \<Rightarrow> effect list" where
  "dispatcher_prints a =
     (if enable_rate_limiter a
      then [Print (MsgRateLimiter (base_delay a) (max_delay a) (max_retries a))] else [])
     @ (if enable_monitor a then [Print MsgMonitor] else [])
     @ (case dispatcher a of
          Memory \<Rightarrow> [Print (MsgMemoryDispatcher (memory_threshold a) (max_concurrent a))]
        | Semaphore \<Rightarrow> [Print (MsgSemaphoreDispatcher (max_concurrent a))])"

text \<open>Everything printed before the crawl starts, in the order of the source.\<close>

definition setup_prints :: "pylib \<Rightarrow> args \<Rightarrow> effect list" where
  "setup_prints L a = content_filter_prints L a @ save_markdown_prints a @ dispatcher_prints a"

subsection \<open>The configuration, statement by statement\<close>

text \<open>
  Every statement of lines 174 to 326 stands inside the \<open>try\<close> block, and a call into the
  crawling library may raise there. The calls of the script, each with the value it
  hands over: the constructors, the assignment to \<open>strategy.max_pages\<close> (line 203), and
  \<open>AsyncWebCrawler()\<close> with the entry into its context (line 326).
\<close>

datatype lib_call =
    NewFilter url_filter
  | NewFilterChain "url_filter list"
  | NewStrategy bfs_strategy
  | SetMaxPages int
  | NewLLMConfig llm_config
  | NewContentFilter filter_obj
  | NewMarkdownGenerator md_generator
  | NewRunConfig run_config
  | NewRateLimiter rate_limiter
  | NewMonitor
  | NewDispatcher dispatcher_obj
  | NewCrawler

text \<open>
  A statement of the configuration: a call into the library, an effect, or the lookup
  \<open>getattr(CacheMode, name)\<close> of line 285.
\<close>

datatype step = Call lib_call | Do effect | GetCacheMode pystr

text \<open>Lines 176 to 203.\<close>

definition filter_steps :: "args \<Rightarrow> step list" where
  "filter_steps a = map (\<lambda>f. Call (NewFilter f)) (build_filters a)"

definition strategy_steps :: "args \<Rightarrow> step list" where
  "strategy_steps a =
     [Call (NewFilterChain (build_filters a)),
      Call (NewStrategy \<lparr>bfs_max_depth = max_depth a,
                         bfs_include_external = include_external a,
                         bfs_filter_chain = Some (build_filters a),
                         bfs_max_pages = None\<rparr>)]
     @ (case max_pages a of None \<Rightarrow> [] | Some n \<Rightarrow> [Call (SetMaxPages n)])"

text \<open>
  Lines 219 to 263: each filter is built before its line is printed; the warning of the
  BM25 filter comes before the constructor; \<open>LLMConfig\<close> receives the token of the
  command line as it is.
\<close>

definition content_filter_steps :: "pylib \<Rightarrow> args \<Rightarrow> step list" where
  "content_filter_steps L a =
     (case content_filter a of
        None \<Rightarrow> []
      | Some Pruning \<Rightarrow>
          [Call (NewContentFilter (PruningContentFilter (pruning_threshold a) (threshold_type a)
                                     (min_word_threshold a))),
           Do (Print (MsgUsingPruning (pruning_threshold a) (threshold_type a)
                        (min_word_threshold a)))]
      | Some BM25 \<Rightarrow>
          (if \<not> truthy_str (user_query a) then [Do (Print MsgWarnNoQuery)] else [])
          @ [Call (NewContentFilter (BM25ContentFilter (user_query a) (bm25_threshold a)
                                       (use_stemming a))),
             Do (Print (MsgUsingBM25
                          (if truthy_str (user_query a) then the (user_query a) else py ''None'')
                          (bm25_threshold a) (use_stemming a)))]
      | Some LLM \<Rightarrow>
          (let llm_cfg = \<lparr>provider = llm_provider a, api_token = llm_api_token a\<rparr>
           in [Call (NewLLMConfig llm_cfg),
               Call (NewContentFilter (LLMContentFilter llm_cfg (llm_instruction a)
                                         (chunk_token_threshold a) (llm_verbose a))),
               Do (Print (MsgUsingLLM (llm_provider a) (chunk_token_threshold a))),
               Do (Print (MsgLLMInstruction (llm_instruction a))),
               (if truthy_str (llm_api_token a) then Do (Print MsgTokenFromArg)
                else Do (Print (MsgTokenFromEnv (env_var_name L a))))]))"

text \<open>Lines 266 to 277.\<close>

definition generator_steps :: "args \<Rightarrow> step list" where
  "generator_steps a =
     Call (NewMarkdownGenerator (build_md_generator a)) # map Do (save_markdown_prints a)"

text \<open>
  Lines 280 to 286. The arguments of \<open>CrawlerRunConfig\<close> are evaluated before the call:
  the name of the cache mode in capitals is looked up in \<open>CacheMode\<close>, and a name the
  enumeration does not have raises \<open>AttributeError\<close>.
\<close>

definition cache_mode_name :: "pylib \<Rightarrow> args \<Rightarrow> pystr" where
  "cache_mode_name L a =
     upper L (case cache_mode a of
                Enabled \<Rightarrow> py ''enabled'' | Bypass \<Rightarrow> py ''bypass'' | Refresh \<Rightarrow> py ''refresh'')"

definition config_steps :: "pylib \<Rightarrow> args \<Rightarrow> step list" where
  "config_steps L a = [GetCacheMode (cache_mode_name L a), Call (NewRunConfig (build_config a))]"

text \<open>Lines 289 to 323.\<close>

definition dispatcher_steps :: "args \<Rightarrow> step list" where
  "dispatcher_steps a =
     (if enable_rate_limiter a
      then [Call (NewRateLimiter \<lparr>rl_base_delay = base_delay a, rl_max_delay = max_delay a,
                                  rl_max_retries = max_retries a\<rparr>),
            Do (Print (MsgRateLimiter (base_delay a) (max_delay a) (max_retries a)))]
      else [])
     @ (if enable_monitor a then [Call NewMonitor, Do (Print MsgMonitor)] else [])
     @ (case dispatcher a of
          Memory \<Rightarrow>
            [Call (NewDispatcher (build_dispatcher a)),
             Do (Print (MsgMemoryDispatcher (memory_threshold a) (max_concurrent a)))]
        | Semaphore \<Rightarrow>
            [Call (NewDispatcher (build_dispatcher a)),
             Do (Print (MsgSemaphoreDispatcher (max_concurrent a)))])"

text \<open>Lines 174 to 326, in the order of the source.\<close>

definition configure_steps :: "pylib \<Rightarrow> args \<Rightarrow> step list" where
  "configure_steps L a =
     filter_steps a @ strategy_steps a @ content_filter_steps L a @ generator_steps a
     @ config_steps L a @ dispatcher_steps a @ [Call NewCrawler]"

text \<open>
  The statements run in order until one raises. \<open>raises\<close> tells which calls into the
  library raise, and what. The result is what was printed and the exception, if any.
\<close>

fun run_steps :: "pylib \<Rightarrow> (lib_call \<Rightarrow> py_error option) \<Rightarrow> step list \<Rightarrow> effect list \<times> py_error option" where
  "run_steps L raises [] = ([], None)"
| "run_steps L raises (Do e # steps) =
     (case run_steps L raises steps of (printed, r) \<Rightarrow> (e # printed, r))"
| "run_steps L raises (Call c # steps) =
     (case raises c of
        Some e \<Rightarrow> ([], Some e)
      | None \<Rightarrow> run_steps L raises steps)"
| "run_steps L raises (GetCacheMode n # steps) =
     (if has_cache_mode L n then run_steps L raises steps else ([], Some AttributeError))"

section \<open>\<open>main\<close>: processing the results (lines 326 to 464)\<close>

text \<open>
  A \<open>CrawlResult\<close> as far as the script reads it. \<open>metadata\<close> is a dictionary, of
  which only the key \<open>depth\<close> is read. \<open>markdown\<close> is \<open>None\<close> when the attribute is
  missing, \<open>None\<close> or falsy: the three cases the test
  \<open>hasattr(result, 'markdown') and result.markdown\<close> rejects. An attribute of the
  markdown object is absent (\<open>hasattr\<close> is false), \<open>None\<close>, or a string.
\<close>

datatype attr = Absent | PyNone | Str pystr

record markdown_result =
  raw_markdown :: attr
  fit_markdown :: attr

record crawl_result =
  url :: pystr
  success :: bool
  metadata :: "(pystr \<times> int) list"
  markdown :: "markdown_result option"

text \<open>\<open>result.metadata.get("depth", 0)\<close>.\<close>

definition depth_of :: "crawl_result \<Rightarrow> int" where
  "depth_of r = (case map_of (metadata r) (py ''depth'') of None \<Rightarrow> 0 | Some d \<Rightarrow> d)"

text \<open>\<open>x.attribute or ''\<close>: reading a missing attribute raises.\<close>

definition attr_or_empty :: "attr \<Rightarrow> py_error + pystr" where
  "attr_or_empty x = (case x of Absent \<Rightarrow> Inl AttributeError | PyNone \<Rightarrow> Inr [] | Str s \<Rightarrow> Inr s)"

text \<open>
  The variables of the loops, and the effects so far. A statement either completes or
  raises; what was printed and written before an exception stays.
\<close>

record run_state =
  total_pages :: nat
  markdown_count :: nat
  pages_by_depth :: "(int \<times> pystr list) list"
  trace :: "effect list"

datatype exec = Normal run_state | Raised py_error run_state

text \<open>
  Lines 347 to 349 and 412 to 414. The dictionary keeps its keys in the order they were
  inserted.
\<close>

fun append_at :: "int \<Rightarrow> pystr \<Rightarrow> (int \<times> pystr list) list \<Rightarrow> (int \<times> pystr list) list" where
  "append_at d u [] = []"
| "append_at d u ((k, v) # m) = (if k = d then (k, v @ [u]) # m else (k, v) # append_at d u m)"

definition record_page :: "int \<Rightarrow> pystr \<Rightarrow> (int \<times> pystr list) list \<Rightarrow> (int \<times> pystr list) list" where
  "record_page d u m =
     (let m1 = (if d \<notin> set (map fst m) then m @ [(d, [])] else m)
      in append_at d u m1)"

text \<open>
  Lines 356 to 381, and again lines 434 to 459 with the same text: the file of one page.
  With a content filter selected and the attribute present the body is \<open>fit_markdown\<close>,
  whatever it holds; the raw markdown is written only in the other branch. Opening or
  writing the file may raise, and then nothing is recorded as written.
\<close>

definition save_page :: "pylib \<Rightarrow> args \<Rightarrow> crawl_result \<Rightarrow> markdown_result \<Rightarrow> run_state \<Rightarrow> exec" where
  "save_page L a r m st =
     (case get_filename_from_url L (url r) of
        Inl e \<Rightarrow> Raised e st
      | Inr filename \<Rightarrow>
          if content_filter a \<noteq> None \<and> fit_markdown m \<noteq> Absent then
            (case attr_or_empty (fit_markdown m) of
               Inl e \<Rightarrow> Raised e st
             | Inr body \<Rightarrow>
                 (let md_content = py ''# '' @ url r @ [NEWLINE, NEWLINE] @ body;
                      md_path = path_join L (output_dir a) (filename @ py ''.md'')
                  in case open_write L md_path of
                       Some e \<Rightarrow> Raised e st
                     | None \<Rightarrow>
                         Normal (st\<lparr>trace := trace st @ [WriteFile md_path md_content,
                                                          Print (MsgSavedFiltered (url r) filename)],
                                     markdown_count := markdown_count st + 1\<rparr>)))
          else
            (case attr_or_empty (raw_markdown m) of
               Inl e \<Rightarrow> Raised e st
             | Inr body \<Rightarrow>
                 (let md_content = py ''# '' @ url r @ [NEWLINE, NEWLINE] @ body;
                      raw_md_path = path_join L (output_dir a) (filename @ py ''.md'')
                  in case open_write L raw_md_path of
                       Some e \<Rightarrow> Raised e st
                     | None \<Rightarrow>
                         Normal (st\<lparr>trace := trace st @ [WriteFile raw_md_path md_content,
                                                          Print (MsgSaved (url r) filename)],
                                     markdown_count := markdown_count st + 1\<rparr>))))"

text \<open>Lines 343 to 381: the body of the streaming loop.\<close>

definition stream_step :: "pylib \<Rightarrow> args \<Rightarrow> crawl_result \<Rightarrow> run_state \<Rightarrow> exec" where
  "stream_step L a r st =
     (let st1 = st\<lparr>total_pages := total_pages st + 1\<rparr>;
          depth = depth_of r;
          st2 = st1\<lparr>pages_by_depth := record_page depth (url r) (pages_by_depth st1)\<rparr>;
          st3 = st2\<lparr>trace := trace st2 @ [Print (MsgProcessed (total_pages st2) (url r) depth)]\<rparr>
      in if save_markdown a \<and> success r \<and> markdown r \<noteq> None
         then save_page L a r (the (markdown r)) st3
         else Normal st3)"

fun stream_loop :: "pylib \<Rightarrow> args \<Rightarrow> crawl_result list \<Rightarrow> run_state \<Rightarrow> exec" where
  "stream_loop L a [] st = Normal st"
| "stream_loop L a (r # rs) st =
     (case stream_step L a r st of
        Raised e st' \<Rightarrow> Raised e st'
      | Normal st' \<Rightarrow> stream_loop L a rs st')"

text \<open>
  Lines 388 to 394 and 417 to 423: the groups by ascending depth. \<open>sorted\<close> orders the
  items of the dictionary; their keys differ, so the order is that of the depths.
\<close>

definition display_depths :: "(int \<times> pystr list) list \<Rightarrow> effect list" where
  "display_depths m =
     concat (map (\<lambda>(depth, urls).
                    [Print (MsgDepth depth (length urls))]
                    @ map (\<lambda>u. Print (MsgUrl u)) (take 5 urls)
                    @ (if length urls > 5 then [Print (MsgMore (length urls - 5))] else []))
                 (sort_key fst m))"

text \<open>Lines 396 to 399 and 461 to 464.\<close>

definition saved_prints :: "pylib \<Rightarrow> args \<Rightarrow> nat \<Rightarrow> effect list" where
  "saved_prints L a n =
     (if n > 0 then [Print (MsgSavedTo (abspath L (output_dir a)))] else [Print MsgNoMarkdown])"

text \<open>
  Lines 328 to 399: streaming mode. \<open>stream_start\<close> is what runs before the first
  result is asked for (lines 329 to 339, the directory made if markdown is saved); then
  the loop over the results in the order they arrive, and the summary.
\<close>

definition stream_start :: "pylib \<Rightarrow> args \<Rightarrow> exec" where
  "stream_start L a =
     (let st = \<lparr>total_pages = 0, markdown_count = 0, pages_by_depth = [],
                trace = [Print MsgStreamingMode, Print MsgProcessing]\<rparr>
      in if save_markdown a then
           (case makedirs L (output_dir a) of
              Some e \<Rightarrow> Raised e st
            | None \<Rightarrow> Normal (st\<lparr>trace := trace st @ [MakeDirs (output_dir a)]\<rparr>))
         else Normal st)"

definition run_streaming :: "pylib \<Rightarrow> args \<Rightarrow> crawl_result list \<Rightarrow> exec" where
  "run_streaming L a results =
     (case stream_start L a of
        Raised e st0 \<Rightarrow> Raised e st0
      | Normal st0 \<Rightarrow>
          (case stream_loop L a results st0 of
             Raised e st \<Rightarrow> Raised e st
           | Normal st \<Rightarrow>
               Normal (st\<lparr>trace := trace st
                            @ [Print MsgCrawlResults, Print (MsgTotalPages (total_pages st))]
                            @ display_depths (pages_by_depth st)
                            @ (if save_markdown a then saved_prints L a (markdown_count st)
                               else [])\<rparr>)))"

text \<open>Lines 409 to 414: the grouping loop of batch mode.\<close>

fun group_loop :: "crawl_result list \<Rightarrow> (int \<times> pystr list) list \<Rightarrow> (int \<times> pystr list) list" where
  "group_loop [] m = m"
| "group_loop (r # rs) m = group_loop rs (record_page (depth_of r) (url r) m)"

text \<open>Lines 432 to 459: the saving loop of batch mode.\<close>

fun save_loop :: "pylib \<Rightarrow> args \<Rightarrow> crawl_result list \<Rightarrow> run_state \<Rightarrow> exec" where
  "save_loop L a [] st = Normal st"
| "save_loop L a (r # rs) st =
     (if success r \<and> markdown r \<noteq> None then
        (case save_page L a r (the (markdown r)) st of
           Raised e st' \<Rightarrow> Raised e st'
         | Normal st' \<Rightarrow> save_loop L a rs st')
      else save_loop L a rs st)"

text \<open>
  Lines 401 to 464: batch mode. It has no page counter (it prints \<open>len(results)\<close>), so
  \<open>total_pages\<close> stays as it is.
\<close>

definition run_batch :: "pylib \<Rightarrow> args \<Rightarrow> crawl_result list \<Rightarrow> exec" where
  "run_batch L a results =
     (let m = group_loop results [];
          st0 = \<lparr>total_pages = 0, markdown_count = 0, pages_by_depth = m,
                 trace = [Print MsgCrawlResults, Print (MsgTotalPages (length results))]
                         @ display_depths m\<rparr>
      in if save_markdown a then
           (case makedirs L (output_dir a) of
              Some e \<Rightarrow> Raised e st0
            | None \<Rightarrow>
                (let st1 = st0\<lparr>trace := trace st0
                                 @ [MakeDirs (output_dir a), Print MsgSavingMarkdown]\<rparr>
                 in case save_loop L a results st1 of
                      Raised e st \<Rightarrow> Raised e st
                    | Normal st \<Rightarrow>
                        Normal (st\<lparr>trace := trace st @ saved_prints L a (markdown_count st)\<rparr>)))
         else Normal st0)"

text \<open>
  Lines 174 to 469. \<open>arun\<close> stands for \<open>crawler.arun\<close>: for a start URL, a run
  configuration and a dispatcher it raises, or delivers results, as a list in batch mode
  and one by one, in the same order, in streaming mode. In streaming mode the call comes
  after the banner and the directory (line 342), in batch mode it comes first
  (line 403). An exception raised inside the \<open>try\<close> block is caught by the one handler at
  its end, which prints it (lines 466 to 469). Two things the library may do are left
  out: raising between two results of a stream, and raising when the block of the
  crawler is left.
\<close>

definition run :: "pylib \<Rightarrow> args \<Rightarrow> crawl_result list \<Rightarrow> exec" where
  "run L a results = (if stream a then run_streaming L a results else run_batch L a results)"

definition crawl_phase :: "pylib \<Rightarrow> args \<Rightarrow> py_error + crawl_result list \<Rightarrow> exec" where
  "crawl_phase L a delivered =
     (case delivered of
        Inr results \<Rightarrow> run L a results
      | Inl e \<Rightarrow>
          if stream a then
            (case stream_start L a of
               Raised e0 st \<Rightarrow> Raised e0 st
             | Normal st \<Rightarrow> Raised e st)
          else Raised e \<lparr>total_pages = 0, markdown_count = 0, pages_by_depth = [], trace = []\<rparr>)"

definition handler :: "py_error \<Rightarrow> effect list" where
  "handler e = [Print (MsgError e), Print MsgTraceback]"

definition main_lib :: "pylib \<Rightarrow> (lib_call \<Rightarrow> py_error option) \<Rightarrow> (pystr \<Rightarrow> run_config \<Rightarrow> dispatcher_obj \<Rightarrow> py_error + crawl_result list) \<Rightarrow> args \<Rightarrow> effect list" where
  "main_lib L raises arun a =
     (case run_steps L raises (configure_steps L a) of
        (printed, Some e) \<Rightarrow> printed @ handler e
      | (printed, None) \<Rightarrow>
          printed
          @ (case crawl_phase L a (arun (args.url a) (build_config a) (build_dispatcher a)) of
               Normal st \<Rightarrow> trace st
             | Raised e st \<Rightarrow> trace st @ handler e))"

text \<open>
  \<open>main\<close> with a library of which every constructor returns. The lookup of the cache mode
  and \<open>arun\<close> may still raise.
\<close>

definition main :: "pylib \<Rightarrow> (pystr \<Rightarrow> run_config \<Rightarrow> dispatcher_obj \<Rightarrow> py_error + crawl_result list) \<Rightarrow> args \<Rightarrow> effect list" where
  "main L arun a = main_lib L (\<lambda>c. None) arun a"

section \<open>The filter chain of the spec\<close>

text \<open>
  Modelled from the spec: \<open>FilterChain.apply\<close> and the filter classes belong to the
  crawling library, which is not in the repository. The spec (4.1): the domain filter
  accepts iff the domain is in the allow-set (when that is not empty) and not in the
  block-set; the pattern filter accepts iff the URL matches at least one pattern; the
  content-type filter accepts iff the content type is in the allow-set. How a pattern
  matches a URL is the parameter \<open>matches\<close>.
\<close>

definition accepts :: "(pystr \<Rightarrow> pystr \<Rightarrow> bool) \<Rightarrow> url_filter \<Rightarrow> pystr \<Rightarrow> pystr \<Rightarrow> pystr \<Rightarrow> bool" where
  "accepts matches f link domain ctype =
     (case f of
        URLPatternFilter patterns \<Rightarrow> list_ex (\<lambda>p. matches p link) patterns
      | DomainFilter allowed blocked \<Rightarrow>
          (allowed = [] \<or> domain \<in> set allowed) \<and> domain \<notin> set blocked
      | ContentTypeFilter types \<Rightarrow> ctype \<in> set types)"

text \<open>
  Modelled from the spec: the chain of the filters, which the library applies. The spec
  (4.1): a link is admitted iff all predicates accept it; an empty chain always
  returns true.
\<close>

definition admit :: "(pystr \<Rightarrow> pystr \<Rightarrow> bool) \<Rightarrow> url_filter list \<Rightarrow> pystr \<Rightarrow> pystr \<Rightarrow> pystr \<Rightarrow> bool" where
  "admit matches chain link domain ctype =
     list_all (\<lambda>f. accepts matches f link domain ctype) chain"

section \<open>Devices for the proofs\<close>

text \<open>What a list of statements prints when all of them run.\<close>

definition printed :: "step list \<Rightarrow> effect list" where
  "printed steps = concat (map (\<lambda>s. case s of Do e \<Rightarrow> [e] | _ \<Rightarrow> []) steps)"

text \<open>
  The effects of \<open>save_page\<close>, apart from the state they are added to: the file and the
  line printed, or the exception.
\<close>

definition page_effects :: "pylib \<Rightarrow> args \<Rightarrow> crawl_result \<Rightarrow> markdown_result \<Rightarrow> py_error + effect list" where
  "page_effects L a r m =
     (case get_filename_from_url L (url r) of
        Inl e \<Rightarrow> Inl e
      | Inr filename \<Rightarrow>
          if content_filter a \<noteq> None \<and> fit_markdown m \<noteq> Absent then
            (case attr_or_empty (fit_markdown m) of
               Inl e \<Rightarrow> Inl e
             | Inr body \<Rightarrow>
                 (case open_write L (path_join L (output_dir a) (filename @ py ''.md'')) of
                    Some e \<Rightarrow> Inl e
                  | None \<Rightarrow>
                      Inr [WriteFile (path_join L (output_dir a) (filename @ py ''.md''))
                             (py ''# '' @ url r @ [NEWLINE, NEWLINE] @ body),
                           Print (MsgSavedFiltered (url r) filename)]))
          else
            (case attr_or_empty (raw_markdown m) of
               Inl e \<Rightarrow> Inl e
             | Inr body \<Rightarrow>
                 (case open_write L (path_join L (output_dir a) (filename @ py ''.md'')) of
                    Some e \<Rightarrow> Inl e
                  | None \<Rightarrow>
                      Inr [WriteFile (path_join L (output_dir a) (filename @ py ''.md''))
                             (py ''# '' @ url r @ [NEWLINE, NEWLINE] @ body),
                           Print (MsgSaved (url r) filename)])))"

text \<open>The files a trace writes, in order: path and content.\<close>

definition files_written :: "effect list \<Rightarrow> (pystr \<times> pystr) list" where
  "files_written t = concat (map (\<lambda>e. case e of WriteFile p c \<Rightarrow> [(p, c)] | _ \<Rightarrow> []) t)"

text \<open>What the two modes share while they save the same pages.\<close>

definition agree :: "run_state \<Rightarrow> run_state \<Rightarrow> bool" where
  "agree s b = (files_written (trace s) = files_written (trace b) \<and> markdown_count s = markdown_count b)"

text \<open>The URLs of the results at one depth, in the order of the results.\<close>

definition pages_at :: "int \<Rightarrow> crawl_result list \<Rightarrow> pystr list" where
  "pages_at d rs = map url (filter (\<lambda>r. depth_of r = d) rs)"


text \<open>
  The lines of the summary for one depth, told from the URLs at that depth: their number,
  the first five of them, and the number of the others when there are more.
\<close>

definition depth_lines :: "int \<Rightarrow> pystr list \<Rightarrow> effect list" where
  "depth_lines d urls =
     [Print (MsgDepth d (length urls))]
     @ map (\<lambda>u. Print (MsgUrl u)) (take 5 urls)
     @ (if length urls > 5 then [Print (MsgMore (length urls - 5))] else [])"

text \<open>
  The summary, told from the results alone: the heading, the number of results, and the
  lines of every depth that occurs, in ascending order of the depths.
\<close>

definition summary_lines :: "crawl_result list \<Rightarrow> effect list" where
  "summary_lines rs =
     [Print MsgCrawlResults, Print (MsgTotalPages (length rs))]
     @ concat (map (\<lambda>d. depth_lines d (pages_at d rs)) (sort (remdups (map depth_of rs))))"

text \<open>The results of which a file is saved: fetched with success, with a markdown object.\<close>

definition saved_pages :: "crawl_result list \<Rightarrow> crawl_result list" where
  "saved_pages rs = filter (\<lambda>r. success r \<and> markdown r \<noteq> None) rs"


section \<open>Examples\<close>

text \<open>
  The defaults of the parser for the command line \<open>webscraper_crawl4ai.py https://localhost\<close>
  (the instruction of the LLM filter shortened), and pages to run it on.
\<close>

definition ex_args :: args where
  "ex_args =
     \<lparr>args.url = py ''https://localhost'', max_depth = 2, max_pages = None,
      include_external = False, verbose = False, url_patterns = None,
      allowed_domains = None, blocked_domains = None, allowed_content_types = None,
      content_filter = None, pruning_threshold = 0.45, threshold_type = py ''dynamic'',
      min_word_threshold = 5, user_query = None, bm25_threshold = 1.2,
      use_stemming = False, llm_provider = py ''openai/gpt-4o'', llm_api_token = None,
      llm_instruction = py ''Extract the main content'', chunk_token_threshold = 4096,
      llm_verbose = False, ignore_links = False, ignore_images = False,
      escape_html = False, body_width = 0, skip_internal_links = False,
      save_markdown = False, output_dir = py ''./output'', enable_rate_limiter = False,
      base_delay = (1, 3), max_delay = 60, max_retries = 3, dispatcher = Memory,
      memory_threshold = 90, check_interval = 1, max_concurrent = 10, stream = False,
      enable_monitor = False, cache_mode = Bypass\<rparr>"

definition ex_markdown :: "string \<Rightarrow> string \<Rightarrow> markdown_result" where
  "ex_markdown raw fit = \<lparr>raw_markdown = Str (py raw), fit_markdown = Str (py fit)\<rparr>"

definition ex_page :: "string \<Rightarrow> int \<Rightarrow> bool \<Rightarrow> markdown_result option \<Rightarrow> crawl_result" where
  "ex_page u d ok m =
     \<lparr>url = py u, success = ok, metadata = [(py ''depth'', d)], markdown = m\<rparr>"

text \<open>A crawl that delivers one page, whatever it is asked.\<close>

definition ex_arun :: "pystr \<Rightarrow> run_config \<Rightarrow> dispatcher_obj \<Rightarrow> py_error + crawl_result list" where
  "ex_arun u cfg d = Inr [ex_page ''https://example.com/'' 0 True (Some (ex_markdown ''Full text'' ''''))]"

text \<open>A starting state, a configuration that saves with the pruning filter, a page of which
  the filter keeps nothing, and a page that failed.\<close>

definition ex_state :: run_state where
  "ex_state = \<lparr>total_pages = 0, markdown_count = 0, pages_by_depth = [], trace = []\<rparr>"


definition ex_thin_page :: crawl_result where
  "ex_thin_page = ex_page ''https://example.com/'' 0 True (Some (ex_markdown ''Full text'' ''''))"

definition ex_failed_page :: crawl_result where
  "ex_failed_page = ex_page ''https://example.com/'' 0 False None"

text \<open>Seven results: the start page, which failed, and six pages at depth 1.\<close>

definition ex_crawled :: "crawl_result list" where
  "ex_crawled =
     [ex_page ''https://example.com/'' 0 False None,
      ex_page ''https://example.com/a'' 1 True None,
      ex_page ''https://example.com/b'' 1 True None,
      ex_page ''https://example.com/c'' 1 False None,
      ex_page ''https://example.com/d'' 1 True None,
      ex_page ''https://example.com/e'' 1 True None,
      ex_page ''https://example.com/f'' 1 True None]"

section \<open>The rate limiter of the spec\<close>

text \<open>
  Modelled from the spec: \<open>RateLimiter\<close> is a class of the crawling library, of which
  the repository holds only the constructor call (lines 289 to 297). The spec (3, 4.2):
  the state of a domain is its current delay and its count of consecutive throttles;
  the delay is bounded by a configured ceiling, starts at a value drawn from the
  configured base range, doubles, bounded by the ceiling, each time a fetch of the
  domain is throttled, and returns to the base after a successful fetch. A delay is a
  number of seconds, a \<open>real\<close>; the value drawn from the base range is the parameter
  \<open>base\<close>.
\<close>

record limiter_config =
  maxDelay :: real
  maxRetries :: nat

record limiter_state =
  currentDelay :: real
  consecutiveThrottles :: nat

text \<open>
  Modelled from the spec: the first state of a domain. The spec (4.2): the delay starts
  at the configured base range; and (3): the delay is bounded by the configured ceiling,
  in this state as in every other.
\<close>

definition limiter_start :: "limiter_config \<Rightarrow> real \<Rightarrow> limiter_state" where
  "limiter_start cfg base =
     \<lparr>currentDelay = min base (maxDelay cfg), consecutiveThrottles = 0\<rparr>"

text \<open>
  Modelled from the spec: a throttled fetch. The spec (4.2): the delay doubles, bounded
  by a configured ceiling, each time a fetch for the domain is throttled.
\<close>

definition on_throttle :: "limiter_config \<Rightarrow> limiter_state \<Rightarrow> limiter_state" where
  "on_throttle cfg st =
     \<lparr>currentDelay = min (2 * currentDelay st) (maxDelay cfg),
      consecutiveThrottles = consecutiveThrottles st + 1\<rparr>"

text \<open>
  Modelled from the spec: a successful fetch. The spec (4.2): the delay is reset to the
  base range after a successful fetch.
\<close>

definition on_success :: "limiter_config \<Rightarrow> real \<Rightarrow> limiter_state \<Rightarrow> limiter_state" where
  "on_success cfg base st = limiter_start cfg base"

text \<open>
  Modelled from the spec (4.2, 7): one task under the rate limiter. Before each fetch
  the task waits for the current delay of its domain. A throttled fetch is retried; a
  fetch that is still throttled after \<open>maxRetries\<close> retries ends the task with
  \<open>ThrottleExhausted\<close>. \<open>throttled i\<close> tells whether the server throttles the fetch
  made after \<open>i\<close> retries. The result holds the error kind, if any, the number of
  retries made, the delays waited and the state of the domain afterwards.
\<close>

datatype error_kind = FetchFailure | ThrottleExhausted | FilterFailure

record task_result =
  errorKind :: "error_kind option"
  retryCount :: nat
  delaysApplied :: "real list"
  limiterAfter :: limiter_state

function fetch_with_retries ::
  "limiter_config \<Rightarrow> real \<Rightarrow> (nat \<Rightarrow> bool) \<Rightarrow> nat \<Rightarrow> real list \<Rightarrow> limiter_state \<Rightarrow> task_result" where
  "fetch_with_retries cfg base throttled retries waited st =
     (let waited1 = waited @ [currentDelay st]
      in if throttled retries then
           (let st1 = on_throttle cfg st
            in if retries < maxRetries cfg
               then fetch_with_retries cfg base throttled (retries + 1) waited1 st1
               else \<lparr>errorKind = Some ThrottleExhausted, retryCount = retries,
                     delaysApplied = waited1, limiterAfter = st1\<rparr>)
         else \<lparr>errorKind = None, retryCount = retries,
               delaysApplied = waited1, limiterAfter = on_success cfg base st\<rparr>)"
  by pat_completeness auto
termination
  by (relation "measure (\<lambda>(cfg, base, throttled, retries, waited, st). maxRetries cfg - retries)")
     auto

declare fetch_with_retries.simps [simp del]

text \<open>
  Modelled from the spec: a task on a domain not fetched before, so that it starts from
  the first state.
\<close>

definition run_task :: "limiter_config \<Rightarrow> real \<Rightarrow> (nat \<Rightarrow> bool) \<Rightarrow> task_result" where
  "run_task cfg base throttled = fetch_with_retries cfg base throttled 0 [] (limiter_start cfg base)"

text \<open>The default limiter of the command line, with the base delay drawn as 1 second.\<close>

definition ex_limiter :: limiter_config where
  "ex_limiter = \<lparr>maxDelay = 60, maxRetries = 3\<rparr>"

section \<open>The breadth-first strategy of the spec\<close>

text \<open>
  Modelled from the spec: \<open>BFSDeepCrawlStrategy\<close> is a class of the crawling library,
  of which the repository holds only the constructor call (lines 195 to 203). The spec
  (3, 4.4): a task is a URL with its depth and the domain of the start URL; tasks are
  processed level by level; a link discovered at depth \<open>d\<close> becomes a task at depth
  \<open>d + 1\<close> unless that exceeds the configured maximum, in which case it is dropped; a
  link to another domain is dropped before admission unless external links are
  included; a URL already fetched or queued (after normalisation) is not queued again;
  the filter chain decides admission; once \<open>maxPages\<close> pages have been fetched
  successfully no further task is dispatched. The content-type filter acts on the
  response: a page it rejects is neither kept nor expanded. A depth, and so the maximum
  depth, is a natural number. The fetch layer is deterministic: a function of the URL.
\<close>

record page =
  pageSuccess :: bool
  contentType :: pystr
  rawMarkdown :: "pystr option"
  filteredMarkdown :: "pystr option"
  discoveredLinks :: "pystr list"
  pageError :: "error_kind option"

record fetch_outcome =
  outUrl :: pystr
  outDepth :: nat
  outPage :: page

record crawl_task =
  taskUrl :: pystr
  taskDepth :: nat
  originDomain :: pystr

record web =
  fetch :: "pystr \<Rightarrow> page"
  domain_of :: "pystr \<Rightarrow> pystr"
  normalize :: "pystr \<Rightarrow> pystr"
  pattern_matches :: "pystr \<Rightarrow> pystr \<Rightarrow> bool"

record crawl_config =
  maxDepth :: nat
  maxPages :: "nat option"
  includeExternal :: bool
  filterChain :: "url_filter list"

record frontier =
  visited :: "pystr list"
  outcomes :: "fetch_outcome list"
  queued :: "crawl_task list"

text \<open>
  Modelled from the spec: the two places where the chain is consulted. The spec (4.1):
  the content-type filter is evaluated only after a response is available, so it cannot
  prevent the fetch but can prevent link expansion or result retention; the other
  filters decide whether a discovered link is admitted.
\<close>

definition is_content_type_filter :: "url_filter \<Rightarrow> bool" where
  "is_content_type_filter f = (case f of ContentTypeFilter ts \<Rightarrow> True | _ \<Rightarrow> False)"

definition admit_link :: "web \<Rightarrow> crawl_config \<Rightarrow> pystr \<Rightarrow> bool" where
  "admit_link W cfg link =
     admit (pattern_matches W) (filter (\<lambda>f. \<not> is_content_type_filter f) (filterChain cfg))
       link (domain_of W link) []"

definition retain_page :: "web \<Rightarrow> crawl_config \<Rightarrow> pystr \<Rightarrow> page \<Rightarrow> bool" where
  "retain_page W cfg u p =
     admit (pattern_matches W) (filter is_content_type_filter (filterChain cfg))
       u (domain_of W u) (contentType p)"

text \<open>
  Modelled from the spec: the page budget. The spec (4.4): the crawl ends when
  \<open>maxPages\<close> successfully fetched pages have been produced; no new task is admitted
  from then on.
\<close>

definition budget_left :: "crawl_config \<Rightarrow> frontier \<Rightarrow> bool" where
  "budget_left cfg fr =
     (case maxPages cfg of
        None \<Rightarrow> True
      | Some n \<Rightarrow> length (filter (\<lambda>out. pageSuccess (outPage out)) (outcomes fr)) < n)"

text \<open>
  Modelled from the spec: what becomes of one discovered link. The spec (3, 4.4): it
  re-enters as a task at depth + 1 unless that depth exceeds the configured maximum, in
  which case it is dropped silently; a link to another domain than the origin is dropped
  before admission when external links are not included; duplicate URLs are dropped at
  admission; the filter chain decides the rest.
\<close>

definition admit_one :: "web \<Rightarrow> crawl_config \<Rightarrow> crawl_task \<Rightarrow> pystr \<Rightarrow> frontier \<Rightarrow> frontier" where
  "admit_one W cfg t link fr =
     (if taskDepth t + 1 > maxDepth cfg then fr
      else if \<not> includeExternal cfg \<and> domain_of W link \<noteq> originDomain t then fr
      else if normalize W link \<in> set (visited fr) then fr
      else if \<not> admit_link W cfg link then fr
      else fr\<lparr>visited := normalize W link # visited fr,
              queued := queued fr @ [\<lparr>taskUrl = link, taskDepth = taskDepth t + 1,
                                        originDomain = originDomain t\<rparr>]\<rparr>)"

fun admit_links :: "web \<Rightarrow> crawl_config \<Rightarrow> crawl_task \<Rightarrow> pystr list \<Rightarrow> frontier \<Rightarrow> frontier" where
  "admit_links W cfg t [] fr = fr"
| "admit_links W cfg t (link # links) fr = admit_links W cfg t links (admit_one W cfg t link fr)"

text \<open>
  Modelled from the spec: the tasks of one level, in order. Each is fetched while the
  page budget lasts; its outcome is recorded with the depth of the task; the links of a
  page fetched successfully are expanded.
\<close>

fun crawl_level :: "web \<Rightarrow> crawl_config \<Rightarrow> crawl_task list \<Rightarrow> frontier \<Rightarrow> frontier" where
  "crawl_level W cfg [] fr = fr"
| "crawl_level W cfg (t # ts) fr =
     (if \<not> budget_left cfg fr then fr
      else
        (let p = fetch W (taskUrl t)
         in if \<not> retain_page W cfg (taskUrl t) p then crawl_level W cfg ts fr
            else
              (let fr1 = fr\<lparr>outcomes := outcomes fr
                             @ [\<lparr>outUrl = taskUrl t, outDepth = taskDepth t, outPage = p\<rparr>]\<rparr>
               in crawl_level W cfg ts
                    (if pageSuccess p then admit_links W cfg t (discoveredLinks p) fr1
                     else fr1))))"

text \<open>
  Modelled from the spec: the levels in breadth order (spec 4.4: all tasks at depth \<open>d\<close>
  before any task at depth \<open>d + 1\<close>). The count of levels left only bounds the recursion:
  level \<open>maxDepth\<close> queues nothing, so the frontier is empty when the count is spent
  (\<open>crawl_more_levels\<close>).
\<close>

fun crawl_levels :: "web \<Rightarrow> crawl_config \<Rightarrow> nat \<Rightarrow> crawl_task list \<Rightarrow> frontier \<Rightarrow> frontier" where
  "crawl_levels W cfg 0 level fr = fr"
| "crawl_levels W cfg (Suc n) level fr =
     (if level = [] then fr
      else (let fr1 = crawl_level W cfg level (fr\<lparr>queued := []\<rparr>)
            in crawl_levels W cfg n (queued fr1) fr1))"

text \<open>
  Modelled from the spec: the crawl from a start URL, which is the one task at depth 0
  (spec 8, items 7 and 9: the root is always fetched).
\<close>

definition crawl :: "web \<Rightarrow> crawl_config \<Rightarrow> pystr \<Rightarrow> fetch_outcome list" where
  "crawl W cfg start =
     outcomes (crawl_levels W cfg (Suc (maxDepth cfg))
                 [\<lparr>taskUrl = start, taskDepth = 0, originDomain = domain_of W start\<rparr>]
                 \<lparr>visited = [normalize W start], outcomes = [], queued = []\<rparr>)"

text \<open>
  Modelled from the spec: how an outcome of the strategy reaches the script, as a
  \<open>CrawlResult\<close> whose metadata holds the depth.
\<close>

definition deliver :: "fetch_outcome \<Rightarrow> crawl_result" where
  "deliver out =
     \<lparr>url = outUrl out,
      success = pageSuccess (outPage out),
      metadata = [(py ''depth'', int (outDepth out))],
      markdown =
        (case rawMarkdown (outPage out) of
           None \<Rightarrow> None
         | Some raw \<Rightarrow>
             Some \<lparr>raw_markdown = Str raw,
                   fit_markdown = (case filteredMarkdown (outPage out) of
                                     None \<Rightarrow> PyNone | Some fit \<Rightarrow> Str fit)\<rparr>)\<rparr>"

text \<open>
  The scenario of the spec (8, item 7): the root page links to two pages of its own
  domain and to one of another domain; each of the two links back to the root.
\<close>

definition ex_web :: web where
  "ex_web =
     \<lparr>fetch = (\<lambda>u. \<lparr>pageSuccess = True, contentType = py ''text/html'',
                       rawMarkdown = Some (py ''text''), filteredMarkdown = None,
                       discoveredLinks =
                         (if u = py ''https://example.com''
                          then [py ''https://example.com/a'', py ''https://example.com/b'',
                                py ''https://other.org/'']
                          else [py ''https://example.com'']),
                       pageError = None\<rparr>),
      domain_of = (\<lambda>u. if u = py ''https://other.org/'' then py ''other.org''
                        else py ''example.com''),
      normalize = (\<lambda>u. u),
      pattern_matches = (\<lambda>p u. False)\<rparr>"

definition ex_crawl_config :: crawl_config where
  "ex_crawl_config = \<lparr>maxDepth = 1, maxPages = None, includeExternal = False, filterChain = []\<rparr>"

text \<open>The invariant of the frontier: no outcome and no queued task beyond the maximum depth.\<close>

definition bounded :: "crawl_config \<Rightarrow> frontier \<Rightarrow> bool" where
  "bounded cfg fr =
     ((\<forall>out \<in> set (outcomes fr). outDepth out \<le> maxDepth cfg)
      \<and> (\<forall>q \<in> set (queued fr). taskDepth q \<le> maxDepth cfg))"

text \<open>What the tasks of depth \<open>d\<close> may queue: tasks one level down, within the maximum.\<close>

definition next_level_ok :: "crawl_config \<Rightarrow> nat \<Rightarrow> frontier \<Rightarrow> bool" where
  "next_level_ok cfg d fr = (\<forall>q \<in> set (queued fr). taskDepth q = Suc d \<and> Suc d \<le> maxDepth cfg)"

section \<open>Facts about the string helpers\<close>

lemma split_on_nonempty: "split_on c s \<noteq> []"
  by (induction s) (auto simp: Let_def)

lemma length_split_on: "length (split_on c s) = Suc (count_list s c)"
proof (induction s)
  case Nil
  show ?case by simp
next
  case (Cons x xs)
  have "split_on c xs \<noteq> []" by (rule split_on_nonempty)
  then have "length (tl (split_on c xs)) = length (split_on c xs) - 1" by simp
  with Cons show ?case by (auto simp: Let_def)
qed

lemma count_list_pos_iff: "0 < count_list s c \<longleftrightarrow> c \<in> set s"
  by (induction s) auto

lemma split_on_two_iff: "2 \<le> length (split_on c s) \<longleftrightarrow> c \<in> set s"
proof -
  have "2 \<le> length (split_on c s) \<longleftrightarrow> 0 < count_list s c"
    by (simp add: length_split_on Suc_le_eq)
  then show ?thesis by (simp only: count_list_pos_iff)
qed

lemma py_get_last_ok: "xs \<noteq> [] \<Longrightarrow> \<exists>v. py_get xs (- 1) = Inr v"
  by (cases xs) (auto simp: py_get_def Let_def)

lemma py_get_minus2: "(\<exists>v. py_get xs (- 2) = Inr v) \<longleftrightarrow> 2 \<le> length xs"
  by (auto simp: py_get_def Let_def)

lemma py_get_minus2_err: "\<not> 2 \<le> length xs \<Longrightarrow> py_get xs (- 2) = Inl IndexError"
  by (auto simp: py_get_def Let_def)

lemma pick_filename_ok_iff:
  "(\<exists>f. pick_filename p = Inr f) \<longleftrightarrow> (rstrip SLASH (path p) \<noteq> [] \<or> DOT \<in> set (netloc p))"
proof (cases "rstrip SLASH (path p) = []")
  case True
  then show ?thesis
    using py_get_minus2 [of "split_on DOT (netloc p)"]
    by (simp add: pick_filename_def split_on_two_iff)
next
  case False
  show ?thesis
  proof (cases "SLASH \<in> set (rstrip SLASH (path p))")
    case True
    let ?parts = "split_on SLASH (rstrip SLASH (path p))"
    from True have two: "2 \<le> length ?parts" by (simp add: split_on_two_iff)
    obtain l where l: "py_get ?parts (- 1) = Inr l"
      using py_get_last_ok [OF split_on_nonempty] by blast
    obtain q where q: "py_get ?parts (- 2) = Inr q"
      using py_get_minus2 [of ?parts] two by blast
    from False True two l q show ?thesis
      by (simp add: pick_filename_def Let_def)
  next
    case F2: False
    with False show ?thesis by (simp add: pick_filename_def Let_def)
  qed
qed

lemma pick_filename_err:
  "rstrip SLASH (path p) = [] \<Longrightarrow> DOT \<notin> set (netloc p) \<Longrightarrow> pick_filename p = Inl IndexError"
  by (simp add: pick_filename_def py_get_minus2_err split_on_two_iff)

lemma sub_invalid_nonempty: "s \<noteq> [] \<Longrightarrow> sub_invalid L s \<noteq> []"
  by (simp add: sub_invalid_def)





section \<open>Claims about \<open>get_filename_from_url\<close>\<close>

text \<open>
  C9. Whenever \<open>urlparse\<close> returns a parse of the URL, \<open>get_filename_from_url\<close> returns
  normally exactly when the path, stripped of trailing slashes, is not empty or
  \<open>netloc\<close> (the host component the source splits at dots) holds a dot; for an empty
  stripped path and a dot-free \<open>netloc\<close> it raises \<open>IndexError\<close>, the subscript
  \<open>[-2]\<close> of a one-element list.
\<close>

theorem get_filename_returns_iff:
  assumes "urlparse L u = Inr p"
  shows "((rstrip SLASH (path p) \<noteq> [] \<or> DOT \<in> set (netloc p))
            \<longrightarrow> (\<exists>f. get_filename_from_url L u = Inr f))
       \<and> (rstrip SLASH (path p) = [] \<and> DOT \<notin> set (netloc p)
            \<longrightarrow> get_filename_from_url L u = Inl IndexError)"
proof (intro conjI impI)
  assume "rstrip SLASH (path p) \<noteq> [] \<or> DOT \<in> set (netloc p)"
  then obtain f where "pick_filename p = Inr f"
    using pick_filename_ok_iff [of p] by blast
  with assms show "\<exists>f. get_filename_from_url L u = Inr f"
    by (simp add: get_filename_from_url_def)
next
  assume "rstrip SLASH (path p) = [] \<and> DOT \<notin> set (netloc p)"
  then have "pick_filename p = Inl IndexError"
    by (simp add: pick_filename_err)
  with assms show "get_filename_from_url L u = Inl IndexError"
    by (simp add: get_filename_from_url_def)
qed

text \<open>The example of the docstring, two root URLs and \<open>https://localhost\<close>.\<close>

theorem get_filename_returns_iff_witness:
  "get_filename_from_url ex_lib (py ''https://console.groq.com/docs/libraries'')
     = Inr (py ''docs_libraries'')
   \<and> get_filename_from_url ex_lib (py ''https://example.com'') = Inr (py ''example'')
   \<and> get_filename_from_url ex_lib (py ''https://example.com/'') = Inr (py ''example'')
   \<and> get_filename_from_url ex_lib (py ''https://localhost'') = Inl IndexError"
proof -
  have p: "urlparse ex_lib (py ''https://localhost'') = Inr (ex_parsed ''localhost'' '''')"
    by (simp add: ex_lib_def ex_urlparse_def)
  have e: "rstrip SLASH (path (ex_parsed ''localhost'' '''')) = []
           \<and> DOT \<notin> set (netloc (ex_parsed ''localhost'' ''''))"
    by (simp add: ex_parsed_def rstrip_def py_def DOT_def)
  have 1: "get_filename_from_url ex_lib (py ''https://localhost'') = Inl IndexError"
    using get_filename_returns_iff [OF p] e by blast
  have 2: "get_filename_from_url ex_lib (py ''https://console.groq.com/docs/libraries'')
             = Inr (py ''docs_libraries'')"
    by (simp add: get_filename_from_url_def pick_filename_def clean_filename_def
        sub_invalid_def keep_char_def word_char_def dollar_def py_get_def rstrip_def
        ex_lib_def ex_urlparse_def ex_parsed_def ex_isalnum_def py_def Let_def
        SLASH_def DOT_def HYPHEN_def UNDERSCORE_def QMARK_def HASH_def NEWLINE_def)
  have 3: "get_filename_from_url ex_lib (py ''https://example.com'') = Inr (py ''example'')"
    by (simp add: get_filename_from_url_def pick_filename_def clean_filename_def
        sub_invalid_def keep_char_def word_char_def dollar_def py_get_def rstrip_def
        ex_lib_def ex_urlparse_def ex_parsed_def ex_isalnum_def py_def Let_def
        SLASH_def DOT_def HYPHEN_def UNDERSCORE_def QMARK_def HASH_def NEWLINE_def)
  have 4: "get_filename_from_url ex_lib (py ''https://example.com/'') = Inr (py ''example'')"
    by (simp add: get_filename_from_url_def pick_filename_def clean_filename_def
        sub_invalid_def keep_char_def word_char_def dollar_def py_get_def rstrip_def
        ex_lib_def ex_urlparse_def ex_parsed_def ex_isalnum_def py_def Let_def
        SLASH_def DOT_def HYPHEN_def UNDERSCORE_def QMARK_def HASH_def NEWLINE_def)
  from 1 2 3 4 show ?thesis by simp
qed



section \<open>Facts about the two modes\<close>

lemma files_written_append: "files_written (s @ t) = files_written s @ files_written t"
  by (simp add: files_written_def)

lemma files_written_simps:
  "files_written [] = []"
  "files_written (Print x # t) = files_written t"
  "files_written (MakeDirs d # t) = files_written t"
  "files_written (WriteFile p c # t) = (p, c) # files_written t"
  by (simp_all add: files_written_def)

lemma save_page_effects:
  "save_page L a r m st =
     (case page_effects L a r m of
        Inl e \<Rightarrow> Raised e st
      | Inr es \<Rightarrow> Normal (st\<lparr>trace := trace st @ es, markdown_count := markdown_count st + 1\<rparr>))"
  by (simp add: save_page_def page_effects_def Let_def split: sum.splits option.splits)

lemma stream_step_cases:
  "stream_step L a r st =
     (let st3 = st\<lparr>total_pages := total_pages st + 1,
                   pages_by_depth := record_page (depth_of r) (url r) (pages_by_depth st),
                   trace := trace st @ [Print (MsgProcessed (total_pages st + 1) (url r) (depth_of r))]\<rparr>
      in if save_markdown a \<and> success r \<and> markdown r \<noteq> None
         then (case page_effects L a r (the (markdown r)) of
                 Inl e \<Rightarrow> Raised e st3
               | Inr es \<Rightarrow> Normal (st3\<lparr>trace := trace st3 @ es, markdown_count := markdown_count st3 + 1\<rparr>))
         else Normal st3)"
  by (simp add: stream_step_def save_page_effects Let_def del: not_None_eq)

lemma stream_step_Normal:
  assumes "stream_step L a r st = Normal st'"
  shows "pages_by_depth st' = record_page (depth_of r) (url r) (pages_by_depth st)
       \<and> total_pages st' = total_pages st + 1"
  using assms by (auto simp: stream_step_cases Let_def split: if_splits sum.splits)

lemma stream_loop_Normal:
  "stream_loop L a rs st = Normal st' \<Longrightarrow>
     pages_by_depth st' = group_loop rs (pages_by_depth st)
   \<and> total_pages st' = total_pages st + length rs"
proof (induction rs arbitrary: st)
  case Nil
  then show ?case by simp
next
  case (Cons r rs)
  from Cons.prems obtain s1 where s1: "stream_step L a r st = Normal s1"
    and rest: "stream_loop L a rs s1 = Normal st'"
    by (auto split: exec.splits)
  from stream_step_Normal [OF s1] Cons.IH [OF rest] show ?case by simp
qed

lemma stream_step_Raised:
  assumes "stream_step L a r st = Raised e st'"
  shows "pages_by_depth st' = record_page (depth_of r) (url r) (pages_by_depth st)
       \<and> total_pages st' = total_pages st + 1"
  using assms by (auto simp: stream_step_cases Let_def split: if_splits sum.splits)

lemma loops_agree:
  assumes "save_markdown a" and "agree s b"
  shows "(case stream_loop L a rs s of
            Normal s' \<Rightarrow> (\<exists>b'. save_loop L a rs b = Normal b' \<and> agree s' b')
          | Raised e s' \<Rightarrow> (\<exists>b'. save_loop L a rs b = Raised e b' \<and> agree s' b'))"
  using assms(2)
proof (induction rs arbitrary: s b)
  case Nil
  then show ?case by simp
next
  case (Cons r rs)
  let ?s3 = "s\<lparr>total_pages := total_pages s + 1,
                   pages_by_depth := record_page (depth_of r) (url r) (pages_by_depth s),
                   trace := trace s @ [Print (MsgProcessed (total_pages s + 1) (url r) (depth_of r))]\<rparr>"
  have a3: "agree ?s3 b" using Cons.prems by (simp add: agree_def files_written_append files_written_simps)
  show ?case
  proof (cases "success r \<and> markdown r \<noteq> None")
    case False
    then have 1: "stream_step L a r s = Normal ?s3" by (auto simp: stream_step_cases Let_def)
    from False have 2: "save_loop L a (r # rs) b = save_loop L a rs b" by auto
    from Cons.IH [OF a3] show ?thesis by (simp only: stream_loop.simps 1 2 exec.case)
  next
    case True
    show ?thesis
    proof (cases "page_effects L a r (the (markdown r))")
      case (Inl e)
      with True assms(1) have 1: "stream_step L a r s = Raised e ?s3" by (simp add: stream_step_cases Let_def)
      from True Inl have 2: "save_loop L a (r # rs) b = Raised e b" by (simp add: save_page_effects)
      have 3: "stream_loop L a (r # rs) s = Raised e ?s3" by (simp add: 1)
      from a3 show ?thesis unfolding 3 2 by simp
    next
      case (Inr es)
      let ?s4 = "?s3\<lparr>trace := trace ?s3 @ es, markdown_count := markdown_count ?s3 + 1\<rparr>"
      let ?b4 = "b\<lparr>trace := trace b @ es, markdown_count := markdown_count b + 1\<rparr>"
      from True Inr assms(1) have 1: "stream_step L a r s = Normal ?s4" by (simp add: stream_step_cases Let_def)
      from True Inr have 2: "save_loop L a (r # rs) b = save_loop L a rs ?b4" by (simp add: save_page_effects)
      have a4: "agree ?s4 ?b4" using a3 by (simp add: agree_def files_written_append files_written_simps)
      from Cons.IH [OF a4] show ?thesis by (simp only: stream_loop.simps 1 2 exec.case)
    qed
  qed
qed

lemma stream_loop_no_save:
  "\<not> save_markdown a \<Longrightarrow> \<exists>s'. stream_loop L a rs s = Normal s' \<and> files_written (trace s') = files_written (trace s) \<and> markdown_count s' = markdown_count s"
proof (induction rs arbitrary: s)
  case Nil
  then show ?case by simp
next
  case (Cons r rs)
  let ?s3 = "s\<lparr>total_pages := total_pages s + 1,
                   pages_by_depth := record_page (depth_of r) (url r) (pages_by_depth s),
                   trace := trace s @ [Print (MsgProcessed (total_pages s + 1) (url r) (depth_of r))]\<rparr>"
  from Cons.prems have 1: "stream_step L a r s = Normal ?s3" by (simp add: stream_step_cases Let_def)
  from Cons.IH [OF Cons.prems, of ?s3] show ?case by (simp add: 1 files_written_append files_written_simps)
qed


lemmas filename_defs =
  get_filename_from_url_def pick_filename_def clean_filename_def sub_invalid_def
  keep_char_def word_char_def dollar_def py_get_def rstrip_def Let_def
  SLASH_def DOT_def HYPHEN_def UNDERSCORE_def QMARK_def HASH_def NEWLINE_def

lemmas ex_defs =
  ex_lib_def ex_urlparse_def ex_parsed_def ex_isalnum_def ex_upper_def ex_path_join_def
  ex_abspath_def ex_args_def ex_markdown_def ex_page_def py_def

lemmas run_defs =
  run_streaming_def stream_start_def run_batch_def stream_step_def save_page_def record_page_def
  depth_of_def attr_or_empty_def display_depths_def saved_prints_def

lemma all_prints_no_files: "\<forall>e \<in> set t. \<exists>m. e = Print m \<Longrightarrow> files_written t = []"
  by (induction t) (auto simp: files_written_simps)

lemma display_depths_prints: "e \<in> set (display_depths m) \<Longrightarrow> \<exists>x. e = Print x"
  by (auto simp: display_depths_def split: if_splits)

lemma files_written_display [simp]: "files_written (display_depths m) = []"
  by (rule all_prints_no_files) (blast dest: display_depths_prints)

lemma files_written_saved [simp]: "files_written (saved_prints L a n) = []"
  by (simp add: saved_prints_def files_written_simps)

lemma save_loop_pages:
  "save_loop L a rs b = Normal b' \<Longrightarrow> pages_by_depth b' = pages_by_depth b"
proof (induction rs arbitrary: b)
  case Nil
  then show ?case by simp
next
  case (Cons r rs)
  show ?case
  proof (cases "success r \<and> markdown r \<noteq> None")
    case False
    with Cons show ?thesis by auto
  next
    case True
    with Cons.prems obtain b1 where 1: "save_page L a r (the (markdown r)) b = Normal b1"
      and 2: "save_loop L a rs b1 = Normal b'"
      by (auto split: exec.splits)
    from 1 have "pages_by_depth b1 = pages_by_depth b"
      by (auto simp: save_page_effects split: sum.splits)
    with Cons.IH [OF 2] show ?thesis by simp
  qed
qed

lemma stream_start_Normal:
  assumes "stream_start L a = Normal s0"
  shows "s0 = \<lparr>total_pages = 0, markdown_count = 0, pages_by_depth = [],
               trace = [Print MsgStreamingMode, Print MsgProcessing]
                       @ (if save_markdown a then [MakeDirs (output_dir a)] else [])\<rparr>"
    and "save_markdown a \<Longrightarrow> makedirs L (output_dir a) = None"
  using assms by (auto simp: stream_start_def Let_def split: if_splits option.splits)

lemma run_streaming_Normal:
  assumes "run_streaming L a rs = Normal s"
  obtains s1 where
    "stream_loop L a rs
       \<lparr>total_pages = 0, markdown_count = 0, pages_by_depth = [],
        trace = [Print MsgStreamingMode, Print MsgProcessing]
                @ (if save_markdown a then [MakeDirs (output_dir a)] else [])\<rparr> = Normal s1"
    and "s = s1\<lparr>trace := trace s1
                          @ [Print MsgCrawlResults, Print (MsgTotalPages (total_pages s1))]
                          @ display_depths (pages_by_depth s1)
                          @ (if save_markdown a then saved_prints L a (markdown_count s1)
                             else [])\<rparr>"
    and "save_markdown a \<longrightarrow> makedirs L (output_dir a) = None"
proof -
  from assms obtain s0 s1 where 0: "stream_start L a = Normal s0"
    and 1: "stream_loop L a rs s0 = Normal s1"
    and 2: "s = s1\<lparr>trace := trace s1
                          @ [Print MsgCrawlResults, Print (MsgTotalPages (total_pages s1))]
                          @ display_depths (pages_by_depth s1)
                          @ (if save_markdown a then saved_prints L a (markdown_count s1)
                             else [])\<rparr>"
    by (auto simp: run_streaming_def split: exec.splits)
  from stream_start_Normal [OF 0] 1 2 that show thesis by blast
qed

lemma stream_batch_agree:
  assumes "run_streaming L a rs = Normal s"
  shows "\<exists>b. run_batch L a rs = Normal b
            \<and> pages_by_depth s = pages_by_depth b
            \<and> total_pages s = length rs
            \<and> files_written (trace s) = files_written (trace b)
            \<and> markdown_count s = markdown_count b"
proof -
  let ?s0 = "\<lparr>total_pages = 0, markdown_count = 0, pages_by_depth = [],
               trace = [Print MsgStreamingMode, Print MsgProcessing]
                       @ (if save_markdown a then [MakeDirs (output_dir a)] else [])\<rparr>"
  let ?m = "group_loop rs []"
  let ?b0 = "\<lparr>total_pages = 0, markdown_count = 0, pages_by_depth = ?m,
               trace = [Print MsgCrawlResults, Print (MsgTotalPages (length rs))]
                       @ display_depths ?m\<rparr>"
  from run_streaming_Normal [OF assms]
  obtain s1 where loop: "stream_loop L a rs ?s0 = Normal s1"
    and s: "s = s1\<lparr>trace := trace s1
                          @ [Print MsgCrawlResults, Print (MsgTotalPages (total_pages s1))]
                          @ display_depths (pages_by_depth s1)
                          @ (if save_markdown a then saved_prints L a (markdown_count s1)
                             else [])\<rparr>"
    and mk: "save_markdown a \<longrightarrow> makedirs L (output_dir a) = None"
    by blast
  from stream_loop_Normal [OF loop]
  have pages: "pages_by_depth s1 = ?m" and total: "total_pages s1 = length rs" by simp_all
  show ?thesis
  proof (cases "save_markdown a")
    case False
    from stream_loop_no_save [OF False, of L rs ?s0] loop
    have "files_written (trace s1) = [] \<and> markdown_count s1 = 0"
      by (auto simp: files_written_simps)
    with False pages total s show ?thesis
      by (simp add: run_batch_def Let_def files_written_append files_written_simps)
  next
    case True
    let ?b1 = "?b0\<lparr>trace := trace ?b0 @ [MakeDirs (output_dir a), Print MsgSavingMarkdown]\<rparr>"
    have "agree ?s0 ?b1"
      by (simp add: agree_def files_written_append files_written_simps)
    from loops_agree [OF True this, of L rs] loop
    obtain b' where b': "save_loop L a rs ?b1 = Normal b'" and ag: "agree s1 b'"
      by auto
    from save_loop_pages [OF b'] have "pages_by_depth b' = ?m" by simp
    with True pages total s b' ag mk show ?thesis
      by (simp add: run_batch_def Let_def agree_def files_written_append files_written_simps)
  qed
qed

section \<open>Facts about the grouping by depth\<close>

lemma map_of_append_at:
  "map_of (append_at d u m) k =
     (if k = d then map_option (\<lambda>v. v @ [u]) (map_of m d) else map_of m k)"
  by (induction m) auto

lemma map_of_record_page:
  "map_of (record_page d u m) k =
     (if k = d then Some ((case map_of m d of None \<Rightarrow> [] | Some v \<Rightarrow> v) @ [u])
      else map_of m k)"
proof (cases "d \<in> set (map fst m)")
  case True
  then obtain v where "map_of m d = Some v"
    by (metis map_of_eq_None_iff not_None_eq set_map)
  with True show ?thesis by (simp add: record_page_def map_of_append_at)
next
  case False
  then have "map_of m d = None" by (simp add: map_of_eq_None_iff)
  with False show ?thesis
    by (auto simp: record_page_def map_of_append_at map_add_def split: option.splits)
qed

lemma map_of_group_loop:
  "map_of (group_loop rs m) k =
     (if pages_at k rs = [] then map_of m k
      else Some ((case map_of m k of None \<Rightarrow> [] | Some v \<Rightarrow> v) @ pages_at k rs))"
proof (induction rs arbitrary: m)
  case Nil
  show ?case by (simp add: pages_at_def)
next
  case (Cons r rs)
  show ?case
    by (simp add: Cons.IH map_of_record_page pages_at_def)
qed

lemma append_at_keys: "map fst (append_at d u m) = map fst m"
  by (induction m) auto

lemma record_page_keys: "fst ` set (record_page d u m) = insert d (fst ` set m)"
proof -
  have "set (map fst (record_page d u m)) = insert d (set (map fst m))"
    unfolding record_page_def Let_def append_at_keys by auto
  then show ?thesis by simp
qed

lemma group_loop_keys:
  "fst ` set (group_loop rs m) = fst ` set m \<union> depth_of ` set rs"
proof (induction rs arbitrary: m)
  case Nil
  show ?case by simp
next
  case (Cons r rs)
  have "group_loop (r # rs) m = group_loop rs (record_page (depth_of r) (url r) m)"
    by simp
  then have "fst ` set (group_loop (r # rs) m)
          = fst ` set (record_page (depth_of r) (url r) m) \<union> depth_of ` set rs"
    by (simp only: Cons.IH)
  also have "\<dots> = insert (depth_of r) (fst ` set m) \<union> depth_of ` set rs"
    by (simp only: record_page_keys)
  also have "\<dots> = fst ` set m \<union> depth_of ` set (r # rs)"
    by auto
  finally show ?case .
qed

lemma record_page_distinct:
  "distinct (map fst m) \<Longrightarrow> distinct (map fst (record_page d u m))"
  by (auto simp: record_page_def append_at_keys)

lemma group_loop_distinct:
  "distinct (map fst m) \<Longrightarrow> distinct (map fst (group_loop rs m))"
  by (induction rs arbitrary: m) (simp_all add: record_page_distinct)

lemma map_insort_key: "map f (insort_key f x xs) = insort (f x) (map f xs)"
  by (induction xs) simp_all

lemma map_sort_key: "map f (sort_key f xs) = sort (map f xs)"
  by (induction xs) (simp_all add: map_insort_key)

text \<open>Sorting a dictionary's items by key: the sorted keys, each with its value.\<close>

lemma sort_key_fst_distinct:
  assumes "distinct (map fst m)"
  shows "sort_key fst m = map (\<lambda>k. (k, the (map_of m k))) (sort (map fst m))"
proof -
  have 1: "map fst (sort_key fst m) = sort (map fst m)"
    by (rule map_sort_key)
  have 2: "(fst x, the (map_of m (fst x))) = x" if "x \<in> set m" for x
  proof -
    obtain k v where x: "x = (k, v)" by (cases x)
    with that assms have "map_of m k = Some v" by simp
    with x show ?thesis by simp
  qed
  have "map (\<lambda>x. (fst x, the (map_of m (fst x)))) (sort_key fst m) = sort_key fst m"
    by (rule map_idI) (simp add: 2)
  then have "sort_key fst m = map (\<lambda>k. (k, the (map_of m k))) (map fst (sort_key fst m))"
    by (simp add: comp_def)
  then show ?thesis unfolding 1 .
qed

lemma display_depths_group_loop:
  "display_depths (group_loop rs [])
     = concat (map (\<lambda>d. depth_lines d (pages_at d rs)) (sort (remdups (map depth_of rs))))"
proof -
  let ?m = "group_loop rs []"
  have d: "distinct (map fst ?m)" by (simp add: group_loop_distinct)
  have k: "fst ` set ?m = depth_of ` set rs"
    by (simp add: group_loop_keys)
  have keys: "sort (map fst ?m) = sort (remdups (map depth_of rs))"
    by (rule sorted_distinct_set_unique) (simp_all add: d k)
  have v: "the (map_of ?m x) = pages_at x rs" if "x \<in> depth_of ` set rs" for x
  proof -
    from that have "pages_at x rs \<noteq> []"
      by (auto simp: pages_at_def filter_empty_conv)
    then show ?thesis by (simp add: map_of_group_loop)
  qed
  have "display_depths ?m
          = concat (map (\<lambda>d. depth_lines d (the (map_of ?m d))) (sort (map fst ?m)))"
    unfolding display_depths_def sort_key_fst_distinct [OF d]
    by (simp add: comp_def depth_lines_def)
  also have "\<dots> = concat (map (\<lambda>d. depth_lines d (the (map_of ?m d)))
                           (sort (remdups (map depth_of rs))))"
    by (simp only: keys)
  also have "\<dots> = concat (map (\<lambda>d. depth_lines d (pages_at d rs))
                           (sort (remdups (map depth_of rs))))"
    by (rule arg_cong [where f = concat], rule map_cong) (simp_all add: v)
  finally show ?thesis .
qed

lemma pages_at_success [simp]: "pages_at d (map (\<lambda>r. r\<lparr>success := f r\<rparr>) rs) = pages_at d rs"
  by (induction rs) (simp_all add: pages_at_def depth_of_def)

lemma summary_lines_success:
  "summary_lines (map (\<lambda>r. r\<lparr>success := f r\<rparr>) rs) = summary_lines rs"
proof -
  have "map depth_of (map (\<lambda>r. r\<lparr>success := f r\<rparr>) rs) = map depth_of rs"
    by (induction rs) (simp_all add: depth_of_def)
  then show ?thesis
    unfolding summary_lines_def by (simp only: pages_at_success length_map)
qed


lemma save_loop_trace_prefix:
  "save_loop L a rs b = Normal b' \<Longrightarrow> set (trace b) \<subseteq> set (trace b')"
proof (induction rs arbitrary: b)
  case Nil
  then show ?case by simp
next
  case (Cons r rs)
  show ?case
  proof (cases "success r \<and> markdown r \<noteq> None")
    case False
    with Cons.prems have "save_loop L a rs b = Normal b'" by auto
    then show ?thesis by (rule Cons.IH)
  next
    case True
    with Cons.prems obtain b1 where 1: "save_page L a r (the (markdown r)) b = Normal b1"
      and 2: "save_loop L a rs b1 = Normal b'"
      by (auto split: exec.splits)
    from 1 have "set (trace b) \<subseteq> set (trace b1)"
      by (auto simp: save_page_effects split: sum.splits)
    with Cons.IH [OF 2] show ?thesis by blast
  qed
qed

section \<open>Facts about a run that completes\<close>



lemma stream_step_saved:
  assumes "stream_step L a r s = Normal s'"
  shows "set (trace s) \<subseteq> set (trace s')"
    and "save_markdown a \<Longrightarrow> success r \<Longrightarrow> markdown r = Some m
           \<Longrightarrow> \<exists>es. page_effects L a r m = Inr es \<and> set es \<subseteq> set (trace s')"
    and "save_markdown a \<Longrightarrow>
           markdown_count s' = markdown_count s + length (saved_pages [r])"
  using assms
  by (auto simp: stream_step_cases Let_def saved_pages_def split: if_splits sum.splits)

lemma stream_loop_trace_mono:
  "stream_loop L a rs s = Normal s' \<Longrightarrow> set (trace s) \<subseteq> set (trace s')"
proof (induction rs arbitrary: s)
  case Nil
  then show ?case by simp
next
  case (Cons x rs)
  from Cons.prems obtain s1 where 1: "stream_step L a x s = Normal s1"
    and 2: "stream_loop L a rs s1 = Normal s'"
    by (auto split: exec.splits)
  from stream_step_saved(1) [OF 1] Cons.IH [OF 2] show ?case by blast
qed

lemma stream_loop_saved:
  assumes "save_markdown a" and "success r" and "markdown r = Some m"
  shows "stream_loop L a rs s = Normal s' \<Longrightarrow> r \<in> set rs
           \<Longrightarrow> \<exists>es. page_effects L a r m = Inr es \<and> set es \<subseteq> set (trace s')"
proof (induction rs arbitrary: s)
  case Nil
  then show ?case by simp
next
  case (Cons x rs)
  from Cons.prems(1) obtain s1 where 1: "stream_step L a x s = Normal s1"
    and 2: "stream_loop L a rs s1 = Normal s'"
    by (auto split: exec.splits)
  show ?case
  proof (cases "r = x")
    case True
    from stream_step_saved(2) [OF 1 assms(1)] assms(2,3) True
    obtain es where "page_effects L a r m = Inr es" and "set es \<subseteq> set (trace s1)"
      by blast
    with stream_loop_trace_mono [OF 2] show ?thesis by blast
  next
    case False
    with Cons.prems(2) have "r \<in> set rs" by simp
    from Cons.IH [OF 2 this] show ?thesis .
  qed
qed

lemma stream_loop_count:
  assumes "save_markdown a"
  shows "stream_loop L a rs s = Normal s'
           \<Longrightarrow> markdown_count s' = markdown_count s + length (saved_pages rs)"
proof (induction rs arbitrary: s)
  case Nil
  then show ?case by (simp add: saved_pages_def)
next
  case (Cons x rs)
  from Cons.prems obtain s1 where 1: "stream_step L a x s = Normal s1"
    and 2: "stream_loop L a rs s1 = Normal s'"
    by (auto split: exec.splits)
  from stream_step_saved(3) [OF 1 assms] Cons.IH [OF 2] show ?case
    by (simp add: saved_pages_def)
qed

lemma save_loop_Cons:
  assumes "save_loop L a (x # rs) b = Normal b'"
  obtains b1 where "save_loop L a rs b1 = Normal b'"
    and "if success x \<and> markdown x \<noteq> None
         then \<exists>es. page_effects L a x (the (markdown x)) = Inr es
                \<and> b1 = b\<lparr>trace := trace b @ es, markdown_count := markdown_count b + 1\<rparr>
         else b1 = b"
proof (cases "success x \<and> markdown x \<noteq> None")
  case False
  with assms have 1: "save_loop L a rs b = Normal b'" by auto
  have 2: "if success x \<and> markdown x \<noteq> None
         then \<exists>es. page_effects L a x (the (markdown x)) = Inr es
                \<and> b = b\<lparr>trace := trace b @ es, markdown_count := markdown_count b + 1\<rparr>
         else b = b"
    by (simp only: False if_False)
  from that [OF 1 2] show thesis .
next
  case True
  with assms obtain b1 where 1: "save_page L a x (the (markdown x)) b = Normal b1"
    and 2: "save_loop L a rs b1 = Normal b'"
    by (auto split: exec.splits)
  from 1 have "\<exists>es. page_effects L a x (the (markdown x)) = Inr es
                \<and> b1 = b\<lparr>trace := trace b @ es, markdown_count := markdown_count b + 1\<rparr>"
    by (auto simp: save_page_effects split: sum.splits)
  with True 2 that [of b1] show thesis by simp
qed

lemma save_loop_trace_append:
  "save_loop L a rs b = Normal b' \<Longrightarrow> \<exists>t. trace b' = trace b @ t"
proof (induction rs arbitrary: b)
  case Nil
  then show ?case by simp
next
  case (Cons x rs)
  from save_loop_Cons [OF Cons.prems] obtain b1 where 1: "save_loop L a rs b1 = Normal b'"
    and 2: "if success x \<and> markdown x \<noteq> None
         then \<exists>es. page_effects L a x (the (markdown x)) = Inr es
                \<and> b1 = b\<lparr>trace := trace b @ es, markdown_count := markdown_count b + 1\<rparr>
         else b1 = b"
    by blast
  from 2 have "\<exists>t. trace b1 = trace b @ t" by (auto split: if_splits)
  with Cons.IH [OF 1] show ?case by auto
qed

lemma save_loop_saved:
  assumes "success r" and "markdown r = Some m"
  shows "save_loop L a rs b = Normal b' \<Longrightarrow> r \<in> set rs
           \<Longrightarrow> \<exists>es. page_effects L a r m = Inr es \<and> set es \<subseteq> set (trace b')"
proof (induction rs arbitrary: b)
  case Nil
  then show ?case by simp
next
  case (Cons x rs)
  from save_loop_Cons [OF Cons.prems(1)] obtain b1 where 1: "save_loop L a rs b1 = Normal b'"
    and 2: "if success x \<and> markdown x \<noteq> None
         then \<exists>es. page_effects L a x (the (markdown x)) = Inr es
                \<and> b1 = b\<lparr>trace := trace b @ es, markdown_count := markdown_count b + 1\<rparr>
         else b1 = b"
    by blast
  show ?case
  proof (cases "r = x")
    case True
    with 2 assms obtain es where "page_effects L a r m = Inr es" and "set es \<subseteq> set (trace b1)"
      by auto
    with save_loop_trace_prefix [OF 1] show ?thesis by blast
  next
    case False
    with Cons.prems(2) have "r \<in> set rs" by simp
    from Cons.IH [OF 1 this] show ?thesis .
  qed
qed

lemma save_loop_count:
  "save_loop L a rs b = Normal b'
     \<Longrightarrow> markdown_count b' = markdown_count b + length (saved_pages rs)"
proof (induction rs arbitrary: b)
  case Nil
  then show ?case by (simp add: saved_pages_def)
next
  case (Cons x rs)
  from save_loop_Cons [OF Cons.prems] obtain b1 where 1: "save_loop L a rs b1 = Normal b'"
    and 2: "if success x \<and> markdown x \<noteq> None
         then \<exists>es. page_effects L a x (the (markdown x)) = Inr es
                \<and> b1 = b\<lparr>trace := trace b @ es, markdown_count := markdown_count b + 1\<rparr>
         else b1 = b"
    by blast
  from 2 have "markdown_count b1 = markdown_count b + length (saved_pages [x])"
    by (auto simp: saved_pages_def split: if_splits)
  with Cons.IH [OF 1] show ?case by (simp add: saved_pages_def)
qed

text \<open>A run that completes, in either mode.\<close>

lemma run_batch_Normal:
  assumes "run_batch L a rs = Normal st"
  shows "pages_by_depth st = group_loop rs []"
    and "\<exists>t. trace st = summary_lines rs @ t \<and> (\<not> save_markdown a \<longrightarrow> t = [])"
    and "save_markdown a \<Longrightarrow> markdown_count st = length (saved_pages rs)"
    and "save_markdown a \<Longrightarrow> r \<in> set rs \<Longrightarrow> success r \<Longrightarrow> markdown r = Some m
           \<Longrightarrow> \<exists>es. page_effects L a r m = Inr es \<and> set es \<subseteq> set (trace st)"
proof -
  let ?m = "group_loop rs []"
  let ?b0 = "\<lparr>total_pages = 0, markdown_count = 0, pages_by_depth = ?m,
               trace = [Print MsgCrawlResults, Print (MsgTotalPages (length rs))]
                       @ display_depths ?m\<rparr>"
  let ?b1 = "?b0\<lparr>trace := trace ?b0 @ [MakeDirs (output_dir a), Print MsgSavingMarkdown]\<rparr>"
  have sm: "trace ?b0 = summary_lines rs"
    by (simp add: summary_lines_def display_depths_group_loop)
  have plain: "st = ?b0" if "\<not> save_markdown a"
    using that assms by (simp add: run_batch_def Let_def)
  have saving: "\<exists>b'. save_loop L a rs ?b1 = Normal b'
                  \<and> st = b'\<lparr>trace := trace b' @ saved_prints L a (markdown_count b')\<rparr>"
    if "save_markdown a"
    using that assms by (auto simp: run_batch_def Let_def split: exec.splits option.splits)
  show "pages_by_depth st = group_loop rs []"
  proof (cases "save_markdown a")
    case False
    from plain [OF this] show ?thesis by simp
  next
    case True
    from saving [OF this] obtain b' where b': "save_loop L a rs ?b1 = Normal b'"
      and st: "st = b'\<lparr>trace := trace b' @ saved_prints L a (markdown_count b')\<rparr>"
      by blast
    from save_loop_pages [OF b'] st show ?thesis by simp
  qed
  show "\<exists>t. trace st = summary_lines rs @ t \<and> (\<not> save_markdown a \<longrightarrow> t = [])"
  proof (cases "save_markdown a")
    case False
    from plain [OF this] sm False show ?thesis by simp
  next
    case True
    from saving [OF this] obtain b' where b': "save_loop L a rs ?b1 = Normal b'"
      and st: "st = b'\<lparr>trace := trace b' @ saved_prints L a (markdown_count b')\<rparr>"
      by blast
    from save_loop_trace_append [OF b'] obtain t where "trace b' = trace ?b1 @ t" ..
    then have "trace st = summary_lines rs
                 @ ([MakeDirs (output_dir a), Print MsgSavingMarkdown] @ t
                    @ saved_prints L a (markdown_count b'))"
      using sm st by simp
    with True show ?thesis by blast
  qed
  show "markdown_count st = length (saved_pages rs)" if "save_markdown a"
  proof -
    from saving [OF that] obtain b' where b': "save_loop L a rs ?b1 = Normal b'"
      and st: "st = b'\<lparr>trace := trace b' @ saved_prints L a (markdown_count b')\<rparr>"
      by blast
    from save_loop_count [OF b'] st show ?thesis by simp
  qed
  show "\<exists>es. page_effects L a r m = Inr es \<and> set es \<subseteq> set (trace st)"
    if "save_markdown a" and "r \<in> set rs" and "success r" and "markdown r = Some m"
  proof -
    from saving [OF that(1)] obtain b' where b': "save_loop L a rs ?b1 = Normal b'"
      and st: "st = b'\<lparr>trace := trace b' @ saved_prints L a (markdown_count b')\<rparr>"
      by blast
    from save_loop_saved [OF that(3,4) b' that(2)] st show ?thesis by auto
  qed
qed

lemma run_streaming_Normal_facts:
  assumes "run_streaming L a rs = Normal st"
  shows "pages_by_depth st = group_loop rs []"
    and "\<exists>t. trace st = t @ summary_lines rs
                 @ (if save_markdown a then saved_prints L a (markdown_count st) else [])"
    and "save_markdown a \<Longrightarrow> markdown_count st = length (saved_pages rs)"
    and "save_markdown a \<Longrightarrow> r \<in> set rs \<Longrightarrow> success r \<Longrightarrow> markdown r = Some m
           \<Longrightarrow> \<exists>es. page_effects L a r m = Inr es \<and> set es \<subseteq> set (trace st)"
proof -
  let ?s0 = "\<lparr>total_pages = 0, markdown_count = 0, pages_by_depth = [],
               trace = [Print MsgStreamingMode, Print MsgProcessing]
                       @ (if save_markdown a then [MakeDirs (output_dir a)] else [])\<rparr>"
  from run_streaming_Normal [OF assms]
  obtain s1 where loop: "stream_loop L a rs ?s0 = Normal s1"
    and st: "st = s1\<lparr>trace := trace s1
                          @ [Print MsgCrawlResults, Print (MsgTotalPages (total_pages s1))]
                          @ display_depths (pages_by_depth s1)
                          @ (if save_markdown a then saved_prints L a (markdown_count s1)
                             else [])\<rparr>"
    by blast
  from stream_loop_Normal [OF loop]
  have pages: "pages_by_depth s1 = group_loop rs []" and total: "total_pages s1 = length rs"
    by simp_all
  from st pages show "pages_by_depth st = group_loop rs []" by simp
  have "trace st = trace s1 @ summary_lines rs
                 @ (if save_markdown a then saved_prints L a (markdown_count st) else [])"
    using st pages total by (simp add: summary_lines_def display_depths_group_loop)
  then show "\<exists>t. trace st = t @ summary_lines rs
                 @ (if save_markdown a then saved_prints L a (markdown_count st) else [])" ..
  show "markdown_count st = length (saved_pages rs)" if "save_markdown a"
    using stream_loop_count [OF that loop] st by simp
  show "\<exists>es. page_effects L a r m = Inr es \<and> set es \<subseteq> set (trace st)"
    if "save_markdown a" and "r \<in> set rs" and "success r" and "markdown r = Some m"
    using stream_loop_saved [OF that(1,3,4) loop that(2)] st by auto
qed

section \<open>Claims about the two modes and the saved files\<close>

text \<open>
  C1, at an input where the code departs from it. With \<open>--save-markdown\<close> and the
  two results \<open>https://localhost\<close> (depth 0) and \<open>https://localhost/a\<close> (depth 1),
  both with markdown, each mode ends in the \<open>IndexError\<close> that
  \<open>get_filename_from_url\<close> raises for the first URL. Streaming mode has by then grouped
  only the first result; batch mode has grouped both. So the two modes do not build the
  same grouping here. (Whenever the streaming run completes they do:
  \<open>stream_batch_agree\<close>.)
\<close>

theorem streaming_grouping_cut_short:
  "(case run_streaming ex_lib (ex_args\<lparr>save_markdown := True\<rparr>)
           [ex_page ''https://localhost'' 0 True (Some (ex_markdown ''Home'' ''Home'')),
            ex_page ''https://localhost/a'' 1 True (Some (ex_markdown ''A'' ''A''))] of
      Raised e s \<Rightarrow> e = IndexError \<and> pages_by_depth s = [(0, [py ''https://localhost''])]
    | Normal s \<Rightarrow> False)
 \<and> (case run_batch ex_lib (ex_args\<lparr>save_markdown := True\<rparr>)
           [ex_page ''https://localhost'' 0 True (Some (ex_markdown ''Home'' ''Home'')),
            ex_page ''https://localhost/a'' 1 True (Some (ex_markdown ''A'' ''A''))] of
      Raised e b \<Rightarrow> e = IndexError
         \<and> pages_by_depth b = [(0, [py ''https://localhost'']), (1, [py ''https://localhost/a''])]
    | Normal b \<Rightarrow> False)"
  by (simp add: run_defs filename_defs ex_defs)







section \<open>Claims about the summary\<close>

text \<open>The run does not look at \<open>success\<close> unless it saves.\<close>

lemma depth_of_success [simp]: "depth_of (r\<lparr>success := x\<rparr>) = depth_of r"
  by (simp add: depth_of_def)

lemma stream_step_success:
  "\<not> save_markdown a \<Longrightarrow> stream_step L a (r\<lparr>success := x\<rparr>) st = stream_step L a r st"
  by (simp add: stream_step_def Let_def)

lemma stream_loop_success:
  "\<not> save_markdown a \<Longrightarrow>
     stream_loop L a (map (\<lambda>r. r\<lparr>success := f r\<rparr>) rs) st = stream_loop L a rs st"
  by (induction rs arbitrary: st) (auto simp: stream_step_success split: exec.splits)

lemma group_loop_success:
  "group_loop (map (\<lambda>r. r\<lparr>success := f r\<rparr>) rs) m = group_loop rs m"
  by (induction rs arbitrary: m) simp_all

lemma run_success:
  "\<not> save_markdown a \<Longrightarrow> run L a (map (\<lambda>r. r\<lparr>success := f r\<rparr>) rs) = run L a rs"
  by (simp add: run_def run_streaming_def run_batch_def stream_loop_success group_loop_success
      split: exec.splits)

text \<open>
  C6, as amended. For every crawl whose processing completes, the final summary is the
  heading, the total number of results, and for each depth that occurs, in ascending
  order, the number of results at that depth, the URLs of the first five of them and,
  when there are more, the number of the others. In batch mode the run prints it first,
  and nothing else unless it saves; in streaming mode it is the end of what the run
  prints, but for the line on the saved files when it saves. The summary is determined
  by the URLs and depths of the results: it does not report how many pages succeeded.
\<close>

theorem summary_reports_total_and_depths:
  assumes "run L a rs = Normal st"
  shows "(if stream a
          then \<exists>before. trace st = before @ summary_lines rs
                  @ (if save_markdown a then saved_prints L a (markdown_count st) else [])
          else \<exists>after. trace st = summary_lines rs @ after
                  \<and> (\<not> save_markdown a \<longrightarrow> after = []))
       \<and> summary_lines (map (\<lambda>r. r\<lparr>success := f r\<rparr>) rs) = summary_lines rs
       \<and> (\<not> save_markdown a \<longrightarrow> run L a (map (\<lambda>r. r\<lparr>success := f r\<rparr>) rs) = Normal st)"
proof -
  have 1: "\<exists>before. trace st = before @ summary_lines rs
                  @ (if save_markdown a then saved_prints L a (markdown_count st) else [])"
    if "stream a"
  proof -
    from that assms have "run_streaming L a rs = Normal st" by (simp add: run_def)
    then show ?thesis by (rule run_streaming_Normal_facts(2))
  qed
  have 2: "\<exists>after. trace st = summary_lines rs @ after \<and> (\<not> save_markdown a \<longrightarrow> after = [])"
    if "\<not> stream a"
  proof -
    from that assms have "run_batch L a rs = Normal st" by (simp add: run_def)
    then show ?thesis by (rule run_batch_Normal(2))
  qed
  from 1 2 assms show ?thesis by (simp add: summary_lines_success run_success)
qed

text \<open>
  Seven results in batch mode, one at depth 0 and six at depth 1, two of which failed:
  the whole output.
\<close>

theorem summary_reports_total_and_depths_witness:
  "\<exists>st. run ex_lib ex_args ex_crawled = Normal st
       \<and> \<not> stream ex_args \<and> \<not> save_markdown ex_args
       \<and> trace st
           = [Print MsgCrawlResults, Print (MsgTotalPages 7),
              Print (MsgDepth 0 1), Print (MsgUrl (py ''https://example.com/'')),
              Print (MsgDepth 1 6),
              Print (MsgUrl (py ''https://example.com/a'')),
              Print (MsgUrl (py ''https://example.com/b'')),
              Print (MsgUrl (py ''https://example.com/c'')),
              Print (MsgUrl (py ''https://example.com/d'')),
              Print (MsgUrl (py ''https://example.com/e'')),
              Print (MsgMore 1)]"
proof -
  have "\<exists>st. run ex_lib ex_args ex_crawled = Normal st"
    by (simp add: run_def run_batch_def Let_def ex_args_def)
  then obtain st where st: "run ex_lib ex_args ex_crawled = Normal st" ..
  have h: "\<not> stream ex_args" "\<not> save_markdown ex_args" by (simp_all add: ex_args_def)
  have d: "map depth_of ex_crawled = [0, 1, 1, 1, 1, 1, 1]"
    by (simp add: ex_crawled_def ex_page_def depth_of_def py_def)
  have p: "pages_at 0 ex_crawled = [py ''https://example.com/'']"
    "pages_at 1 ex_crawled
       = [py ''https://example.com/a'', py ''https://example.com/b'',
          py ''https://example.com/c'', py ''https://example.com/d'',
          py ''https://example.com/e'', py ''https://example.com/f'']"
    by (simp_all add: pages_at_def ex_crawled_def ex_page_def depth_of_def py_def)
  have s: "summary_lines ex_crawled
           = [Print MsgCrawlResults, Print (MsgTotalPages 7),
              Print (MsgDepth 0 1), Print (MsgUrl (py ''https://example.com/'')),
              Print (MsgDepth 1 6),
              Print (MsgUrl (py ''https://example.com/a'')),
              Print (MsgUrl (py ''https://example.com/b'')),
              Print (MsgUrl (py ''https://example.com/c'')),
              Print (MsgUrl (py ''https://example.com/d'')),
              Print (MsgUrl (py ''https://example.com/e'')),
              Print (MsgMore 1)]"
    unfolding summary_lines_def d by (simp add: p depth_lines_def) (simp add: ex_crawled_def)
  from summary_reports_total_and_depths [OF st, of "\<lambda>r. True"] h
  have "trace st = summary_lines ex_crawled" by auto
  with st h s show ?thesis by simp
qed

text \<open>
  C6 as stated fails: a crawl of one page that succeeded and a crawl of one page that
  failed print the same, in batch and in streaming mode, so no line tells the number of
  pages that succeeded.
\<close>

theorem summary_omits_success_count:
  "run ex_lib ex_args [ex_thin_page] = run ex_lib ex_args [ex_failed_page]
   \<and> run ex_lib (ex_args\<lparr>stream := True\<rparr>) [ex_thin_page]
       = run ex_lib (ex_args\<lparr>stream := True\<rparr>) [ex_failed_page]
   \<and> length (filter success [ex_thin_page]) = 1
   \<and> length (filter success [ex_failed_page]) = 0"
  by (simp add: run_def run_defs ex_defs ex_thin_page_def ex_failed_page_def)

section \<open>Facts about the configuration\<close>

lemma printed_simps [simp]:
  "printed [] = []"
  "printed (Do e # xs) = e # printed xs"
  "printed (Call c # xs) = printed xs"
  "printed (GetCacheMode n # xs) = printed xs"
  by (simp_all add: printed_def)

lemma printed_append [simp]: "printed (xs @ ys) = printed xs @ printed ys"
  by (simp add: printed_def)

lemma printed_map_Do [simp]: "printed (map Do es) = es"
  by (induction es) simp_all

lemma printed_filter_steps [simp]: "printed (filter_steps a) = []"
proof -
  have "printed (map (\<lambda>f. Call (NewFilter f)) fs) = []" for fs
    by (induction fs) simp_all
  then show ?thesis by (simp add: filter_steps_def)
qed

lemma printed_strategy_steps [simp]: "printed (strategy_steps a) = []"
  by (simp add: strategy_steps_def split: option.splits)

lemma printed_content_filter_steps [simp]:
  "printed (content_filter_steps L a) = content_filter_prints L a"
  by (simp add: content_filter_steps_def content_filter_prints_def Let_def
      split: option.splits filter_choice.splits)

lemma printed_generator_steps [simp]: "printed (generator_steps a) = save_markdown_prints a"
  by (simp add: generator_steps_def)

lemma printed_config_steps [simp]: "printed (config_steps L a) = []"
  by (simp add: config_steps_def)

lemma printed_dispatcher_steps [simp]: "printed (dispatcher_steps a) = dispatcher_prints a"
  by (simp add: dispatcher_steps_def dispatcher_prints_def split: dispatcher_choice.splits)

lemma printed_configure_steps: "printed (configure_steps L a) = setup_prints L a"
  by (simp add: configure_steps_def setup_prints_def)

lemma run_steps_append:
  "run_steps L raises (xs @ ys) =
     (case run_steps L raises xs of
        (p, Some e) \<Rightarrow> (p, Some e)
      | (p, None) \<Rightarrow> (case run_steps L raises ys of (q, r) \<Rightarrow> (p @ q, r)))"
proof (induction xs)
  case Nil
  show ?case by simp
next
  case (Cons x xs)
  then show ?case
    by (cases x) (simp_all split: prod.splits option.splits)
qed

lemma run_steps_quiet:
  "\<lbrakk>\<forall>c. Call c \<in> set xs \<longrightarrow> raises c = None; \<forall>n. GetCacheMode n \<in> set xs \<longrightarrow> has_cache_mode L n\<rbrakk>
     \<Longrightarrow> run_steps L raises xs = (printed xs, None)"
proof (induction xs)
  case Nil
  show ?case by simp
next
  case (Cons x xs)
  then show ?case by (cases x) simp_all
qed

lemma no_lookup_filter_steps: "GetCacheMode n \<notin> set (filter_steps a)"
  by (auto simp: filter_steps_def)

lemma no_lookup_strategy_steps: "GetCacheMode n \<notin> set (strategy_steps a)"
  by (simp add: strategy_steps_def split: option.splits)

lemma no_lookup_content_filter_steps: "GetCacheMode n \<notin> set (content_filter_steps L a)"
  by (simp add: content_filter_steps_def Let_def split: option.splits filter_choice.splits)

lemma no_lookup_generator_steps: "GetCacheMode n \<notin> set (generator_steps a)"
  by (auto simp: generator_steps_def)

lemma no_lookup_dispatcher_steps: "GetCacheMode n \<notin> set (dispatcher_steps a)"
  by (simp add: dispatcher_steps_def split: dispatcher_choice.splits)

lemma lookup_configure_steps:
  "GetCacheMode n \<in> set (configure_steps L a) \<longleftrightarrow> n = cache_mode_name L a"
  by (auto simp: configure_steps_def config_steps_def no_lookup_filter_steps
      no_lookup_strategy_steps no_lookup_content_filter_steps no_lookup_generator_steps
      no_lookup_dispatcher_steps)

text \<open>When no call into the library raises, only the lookup of the cache mode can.\<close>

lemma run_steps_configure:
  assumes "\<forall>c. Call c \<in> set (configure_steps L a) \<longrightarrow> raises c = None"
  shows "run_steps L raises (configure_steps L a) =
           (if has_cache_mode L (cache_mode_name L a) then (setup_prints L a, None)
            else (content_filter_prints L a @ save_markdown_prints a, Some AttributeError))"
proof (cases "has_cache_mode L (cache_mode_name L a)")
  case True
  with assms show ?thesis
    by (simp add: run_steps_quiet lookup_configure_steps printed_configure_steps)
next
  case False
  let ?pre = "filter_steps a @ strategy_steps a @ content_filter_steps L a @ generator_steps a"
  let ?post = "Call (NewRunConfig (build_config a)) # dispatcher_steps a @ [Call NewCrawler]"
  have split: "configure_steps L a = ?pre @ GetCacheMode (cache_mode_name L a) # ?post"
    by (simp add: configure_steps_def config_steps_def)
  have "\<forall>c. Call c \<in> set ?pre \<longrightarrow> raises c = None"
    using assms unfolding split by auto
  moreover have "\<forall>n. GetCacheMode n \<in> set ?pre \<longrightarrow> has_cache_mode L n"
    by (simp add: no_lookup_filter_steps no_lookup_strategy_steps
        no_lookup_content_filter_steps no_lookup_generator_steps)
  ultimately have "run_steps L raises ?pre = (printed ?pre, None)"
    by (rule run_steps_quiet)
  then have "run_steps L raises (?pre @ GetCacheMode (cache_mode_name L a) # ?post)
               = (printed ?pre, Some AttributeError)"
    using False by (simp only: run_steps_append) simp
  with False show ?thesis unfolding split by simp
qed

lemma main_lib_unfold:
  assumes "\<forall>c. Call c \<in> set (configure_steps L a) \<longrightarrow> raises c = None"
  shows "main_lib L raises arun a =
           content_filter_prints L a @ save_markdown_prints a
           @ (if has_cache_mode L (cache_mode_name L a) then
                dispatcher_prints a
                @ (case crawl_phase L a (arun (args.url a) (build_config a) (build_dispatcher a)) of
                     Normal st \<Rightarrow> trace st
                   | Raised e st \<Rightarrow> trace st @ handler e)
              else handler AttributeError)"
  by (simp add: main_lib_def run_steps_configure [OF assms] setup_prints_def)

lemma main_unfold:
  "main L arun a =
     content_filter_prints L a @ save_markdown_prints a
     @ (if has_cache_mode L (cache_mode_name L a) then
          dispatcher_prints a
          @ (case crawl_phase L a (arun (args.url a) (build_config a) (build_dispatcher a)) of
               Normal st \<Rightarrow> trace st
             | Raised e st \<Rightarrow> trace st @ handler e)
        else handler AttributeError)"
  unfolding main_def by (rule main_lib_unfold) simp

text \<open>
  With the enumeration as the example library has it, \<open>--cache-mode refresh\<close> ends in the
  handler before anything else is printed and before the crawl is asked for.
\<close>

lemma refresh_is_no_cache_mode:
  "main ex_lib arun (ex_args\<lparr>cache_mode := Refresh\<rparr>)
     = [Print (MsgError AttributeError), Print MsgTraceback]"
  by (simp add: main_unfold content_filter_prints_def save_markdown_prints_def
      cache_mode_name_def handler_def ex_defs ex_has_cache_mode_def)

text \<open>A constructor that raises ends the script in the handler, with what was printed before.\<close>

lemma raising_constructor_is_reported:
  "main_lib ex_lib (\<lambda>c. case c of NewLLMConfig cfg \<Rightarrow> Some ValueError | _ \<Rightarrow> None) arun
       (ex_args\<lparr>content_filter := Some LLM\<rparr>)
     = [Print (MsgError ValueError), Print MsgTraceback]"
  by (simp add: main_lib_def configure_steps_def filter_steps_def strategy_steps_def
      content_filter_steps_def build_filters_def truthy_list_def truthy_str_def Let_def
      handler_def ex_args_def)

section \<open>Claims about the configuration\<close>

text \<open>
  C8. When a content filter is selected and \<open>--save-markdown\<close> is not set, the filter
  object is built, the run configuration has no markdown generator and equals the one
  built with no filter selected, as does the dispatcher; the results are processed as
  without the filter, and all that \<open>main\<close> does differently is to print the lines that
  announce the filter.
\<close>

theorem unused_content_filter:
  assumes "\<not> save_markdown a" and "content_filter a = Some c"
  shows "build_content_filter a \<noteq> None
       \<and> markdown_generator (build_config a) = None
       \<and> build_config a = build_config (a\<lparr>content_filter := None\<rparr>)
       \<and> build_dispatcher a = build_dispatcher (a\<lparr>content_filter := None\<rparr>)
       \<and> run L a results = run L (a\<lparr>content_filter := None\<rparr>) results
       \<and> main L arun a = content_filter_prints L a @ main L arun (a\<lparr>content_filter := None\<rparr>)"
proof -
  let ?a = "a\<lparr>content_filter := None\<rparr>"
  have 1: "build_content_filter a \<noteq> None"
    using assms(2) by (cases c) (simp_all add: build_content_filter_def Let_def)
  have 2: "markdown_generator (build_config a) = None"
    using assms(1) by (simp add: build_config_def)
  have 3: "build_config a = build_config ?a"
    using assms(1)
    by (simp add: build_config_def build_strategy_def build_filters_def)
  have 4: "build_dispatcher a = build_dispatcher ?a"
    by (simp add: build_dispatcher_def build_rate_limiter_def build_monitor_def
        split: dispatcher_choice.splits)
  have step: "stream_step L a r st = stream_step L ?a r st" for r st
    using assms(1) by (simp add: stream_step_def Let_def)
  have loop: "stream_loop L a rs st = stream_loop L ?a rs st" for rs st
    by (induction rs arbitrary: st) (auto simp: step split: exec.splits)
  have start: "stream_start L a = stream_start L ?a"
    using assms(1) by (simp add: stream_start_def)
  have 5: "run L a rs = run L ?a rs" for rs
    using assms(1)
    by (auto simp: run_def run_streaming_def run_batch_def loop start split: exec.splits)
  have phase: "crawl_phase L a x = crawl_phase L ?a x" for x
    by (simp add: crawl_phase_def 5 start split: sum.splits)
  have prints: "save_markdown_prints a = []" "save_markdown_prints ?a = []"
    "content_filter_prints L ?a = []" "dispatcher_prints ?a = dispatcher_prints a"
    "cache_mode_name L ?a = cache_mode_name L a"
    using assms(1)
    by (simp_all add: save_markdown_prints_def content_filter_prints_def dispatcher_prints_def
        cache_mode_name_def split: dispatcher_choice.splits)
  have 7: "main L arun a = content_filter_prints L a @ main L arun ?a"
    by (simp only: main_unfold [of L arun a] main_unfold [of L arun ?a] prints phase
        3 [symmetric] 4 [symmetric]) simp
  from 1 2 3 4 5 7 show ?thesis by simp
qed

text \<open>The default configuration with the pruning filter selected.\<close>

theorem unused_content_filter_witness:
  "\<not> save_markdown (ex_args\<lparr>content_filter := Some Pruning\<rparr>)
   \<and> content_filter (ex_args\<lparr>content_filter := Some Pruning\<rparr>) = Some Pruning
   \<and> build_content_filter (ex_args\<lparr>content_filter := Some Pruning\<rparr>)
       = Some (PruningContentFilter 0.45 (py ''dynamic'') 5)
   \<and> markdown_generator (build_config (ex_args\<lparr>content_filter := Some Pruning\<rparr>)) = None
   \<and> main ex_lib ex_arun (ex_args\<lparr>content_filter := Some Pruning\<rparr>)
       = Print (MsgUsingPruning 0.45 (py ''dynamic'') 5) # main ex_lib ex_arun ex_args"
proof -
  have h1: "\<not> save_markdown (ex_args\<lparr>content_filter := Some Pruning\<rparr>)"
    by (simp add: ex_args_def)
  have h2: "content_filter (ex_args\<lparr>content_filter := Some Pruning\<rparr>) = Some Pruning"
    by simp
  have e: "ex_args\<lparr>content_filter := Some Pruning, content_filter := None\<rparr> = ex_args"
    by (simp add: ex_args_def)
  have p: "content_filter_prints ex_lib (ex_args\<lparr>content_filter := Some Pruning\<rparr>)
             = [Print (MsgUsingPruning 0.45 (py ''dynamic'') 5)]"
    by (simp add: content_filter_prints_def ex_args_def)
  have b: "build_content_filter (ex_args\<lparr>content_filter := Some Pruning\<rparr>)
       = Some (PruningContentFilter 0.45 (py ''dynamic'') 5)"
    by (simp add: build_content_filter_def ex_args_def)
  from unused_content_filter [OF h1 h2, of ex_lib "[]" ex_arun]
  have g: "markdown_generator (build_config (ex_args\<lparr>content_filter := Some Pruning\<rparr>)) = None"
    and m: "main ex_lib ex_arun (ex_args\<lparr>content_filter := Some Pruning\<rparr>)
          = content_filter_prints ex_lib (ex_args\<lparr>content_filter := Some Pruning\<rparr>)
            @ main ex_lib ex_arun (ex_args\<lparr>content_filter := Some Pruning, content_filter := None\<rparr>)"
    by blast+
  from m have "main ex_lib ex_arun (ex_args\<lparr>content_filter := Some Pruning\<rparr>)
          = Print (MsgUsingPruning 0.45 (py ''dynamic'') 5) # main ex_lib ex_arun ex_args"
    unfolding e p by simp
  with h1 h2 b g show ?thesis by blast
qed




text \<open>
  C2. The strategy always receives a filter chain, made of the filters the options ask
  for; with no pattern, domain or content-type option it is the empty chain; and the
  empty chain admits every link.
\<close>

theorem filter_chain_always_present:
  "bfs_filter_chain (build_strategy a) = Some (build_filters a)
   \<and> (\<not> truthy_list (url_patterns a) \<and> \<not> truthy_list (allowed_domains a)
        \<and> \<not> truthy_list (blocked_domains a) \<and> \<not> truthy_list (allowed_content_types a)
       \<longrightarrow> bfs_filter_chain (build_strategy a) = Some [])
   \<and> admit matches [] link domain ctype"
  by (simp add: build_strategy_def build_filters_def admit_def Let_def split: option.splits)

text \<open>The default configuration: no filter option, the empty chain.\<close>

theorem filter_chain_always_present_witness:
  "\<not> truthy_list (url_patterns ex_args) \<and> \<not> truthy_list (allowed_domains ex_args)
   \<and> \<not> truthy_list (blocked_domains ex_args) \<and> \<not> truthy_list (allowed_content_types ex_args)
   \<and> bfs_filter_chain (build_strategy ex_args) = Some []
   \<and> admit (\<lambda>p u. False) [] (py ''https://example.com/a'') (py ''example.com'') (py ''text/html'')"
proof -
  have h: "\<not> truthy_list (url_patterns ex_args) \<and> \<not> truthy_list (allowed_domains ex_args)
   \<and> \<not> truthy_list (blocked_domains ex_args) \<and> \<not> truthy_list (allowed_content_types ex_args)"
    by (simp add: truthy_list_def ex_args_def)
  from filter_chain_always_present [of ex_args "\<lambda>p u. False" "py ''https://example.com/a''"
      "py ''example.com''" "py ''text/html''"] h
  show ?thesis by blast
qed

section \<open>Facts about the rate limiter\<close>

lemma delay_after_throttles:
  assumes "0 \<le> maxDelay cfg"
  shows "currentDelay ((on_throttle cfg ^^ k) (limiter_start cfg base))
           = min (base * 2 ^ k) (maxDelay cfg)
       \<and> consecutiveThrottles ((on_throttle cfg ^^ k) (limiter_start cfg base)) = k"
proof (induction k)
  case 0
  show ?case by (simp add: limiter_start_def)
next
  case (Suc k)
  have "min (2 * min (base * 2 ^ k) (maxDelay cfg)) (maxDelay cfg)
          = min (base * 2 ^ Suc k) (maxDelay cfg)"
    using assms by (simp add: min_def mult.commute)
  with Suc show ?case by (simp add: on_throttle_def)
qed

lemma fetch_with_retries_unfold:
  "fetch_with_retries cfg base throttled n w st =
     (if throttled n then
        (if n < maxRetries cfg
         then fetch_with_retries cfg base throttled (Suc n) (w @ [currentDelay st]) (on_throttle cfg st)
         else \<lparr>errorKind = Some ThrottleExhausted, retryCount = n,
               delaysApplied = w @ [currentDelay st], limiterAfter = on_throttle cfg st\<rparr>)
      else \<lparr>errorKind = None, retryCount = n,
            delaysApplied = w @ [currentDelay st], limiterAfter = on_success cfg base st\<rparr>)"
  by (subst fetch_with_retries.simps) (simp add: Let_def)

lemma fetch_with_retries_props:
  assumes "n \<le> maxRetries cfg"
  shows "(let r = fetch_with_retries cfg base throttled n w ((on_throttle cfg ^^ n) (limiter_start cfg base))
          in n \<le> retryCount r \<and> retryCount r \<le> maxRetries cfg
           \<and> delaysApplied r
               = w @ map (\<lambda>i. currentDelay ((on_throttle cfg ^^ i) (limiter_start cfg base)))
                       [n..<Suc (retryCount r)]
           \<and> (errorKind r = Some ThrottleExhausted
                \<longleftrightarrow> (\<forall>i. n \<le> i \<and> i \<le> maxRetries cfg \<longrightarrow> throttled i))
           \<and> (errorKind r = Some ThrottleExhausted \<longrightarrow> retryCount r = maxRetries cfg)
           \<and> (errorKind r \<noteq> Some ThrottleExhausted
                \<longrightarrow> errorKind r = None \<and> \<not> throttled (retryCount r)))"
  using assms
proof (induction "maxRetries cfg - n" arbitrary: n w)
  case 0
  then have n: "n = maxRetries cfg" by simp
  show ?case
    by (subst fetch_with_retries_unfold) (auto simp: n Let_def)
next
  case (Suc d)
  then have lt: "n < maxRetries cfg" by simp
  show ?case
  proof (cases "throttled n")
    case False
    then show ?thesis
      using lt by (subst fetch_with_retries_unfold) (auto simp: Let_def)
  next
    case True
    have d: "d = maxRetries cfg - Suc n" using Suc.hyps(2) by simp
    have le: "Suc n \<le> maxRetries cfg" using lt by simp
    let ?S = "\<lambda>i. (on_throttle cfg ^^ i) (limiter_start cfg base)"
    let ?D = "\<lambda>i. currentDelay (?S i)"
    let ?r = "fetch_with_retries cfg base throttled (Suc n) (w @ [?D n]) (?S (Suc n))"
    have eq: "fetch_with_retries cfg base throttled n w (?S n) = ?r"
      using True lt by (subst fetch_with_retries_unfold) simp
    from Suc.hyps(1) [OF d le, of "w @ [?D n]"]
    have 1: "Suc n \<le> retryCount ?r"
      and 2: "retryCount ?r \<le> maxRetries cfg"
      and 3: "delaysApplied ?r = (w @ [?D n]) @ map ?D [Suc n..<Suc (retryCount ?r)]"
      and 4: "errorKind ?r = Some ThrottleExhausted
                \<longleftrightarrow> (\<forall>i. Suc n \<le> i \<and> i \<le> maxRetries cfg \<longrightarrow> throttled i)"
      and 5: "errorKind ?r = Some ThrottleExhausted \<longrightarrow> retryCount ?r = maxRetries cfg"
      and 6: "errorKind ?r \<noteq> Some ThrottleExhausted
                \<longrightarrow> errorKind ?r = None \<and> \<not> throttled (retryCount ?r)"
      unfolding Let_def by blast+
    from 1 have "[n..<Suc (retryCount ?r)] = n # [Suc n..<Suc (retryCount ?r)]"
      by (simp add: upt_conv_Cons del: upt_Suc)
    with 3 have d3: "delaysApplied ?r = w @ map ?D [n..<Suc (retryCount ?r)]"
      by (simp del: upt_Suc)
    have all: "(\<forall>i. n \<le> i \<and> i \<le> maxRetries cfg \<longrightarrow> throttled i)
                 \<longleftrightarrow> (\<forall>i. Suc n \<le> i \<and> i \<le> maxRetries cfg \<longrightarrow> throttled i)"
      using True by (metis Suc_leI le_neq_implies_less Suc_leD)
    from 1 have n1: "n \<le> retryCount ?r" by simp
    show ?thesis
      unfolding eq Let_def all using n1 2 d3 4 5 6 by blast
  qed
qed

section \<open>Claims about the components of the spec\<close>

text \<open>
  C7. For every base delay and every ceiling that is a duration (not negative), the
  delay of a domain after \<open>k\<close> consecutive throttles is \<open>min (base * 2 ^ k) maxDelay\<close>; a
  task never makes more than \<open>maxRetries\<close> retries, waits exactly these delays before
  its fetches, and ends with \<open>ThrottleExhausted\<close> iff every fetch up to the last retry
  was throttled, then with \<open>maxRetries\<close> retries made.
\<close>

theorem rate_limiter_backoff:
  assumes "0 \<le> maxDelay cfg"
  shows "currentDelay ((on_throttle cfg ^^ k) (limiter_start cfg base)) = min (base * 2 ^ k) (maxDelay cfg)
       \<and> retryCount (run_task cfg base throttled) \<le> maxRetries cfg
       \<and> delaysApplied (run_task cfg base throttled)
           = map (\<lambda>i. min (base * 2 ^ i) (maxDelay cfg))
               [0..<Suc (retryCount (run_task cfg base throttled))]
       \<and> (errorKind (run_task cfg base throttled) = Some ThrottleExhausted
            \<longleftrightarrow> (\<forall>i \<le> maxRetries cfg. throttled i))
       \<and> (errorKind (run_task cfg base throttled) = Some ThrottleExhausted
            \<longrightarrow> retryCount (run_task cfg base throttled) = maxRetries cfg)"
proof -
  have d: "currentDelay ((on_throttle cfg ^^ i) (limiter_start cfg base))
             = min (base * 2 ^ i) (maxDelay cfg)" for i
    using delay_after_throttles [OF assms, of i] by simp
  from fetch_with_retries_props [of 0 cfg base throttled "[]"]
  show ?thesis
    unfolding run_task_def Let_def by (simp add: d del: upt_Suc)
qed

text \<open>The default limiter: four fetches, all throttled, after delays of 1, 2, 4 and 8 seconds.\<close>

theorem rate_limiter_backoff_witness:
  "0 \<le> maxDelay ex_limiter
   \<and> currentDelay ((on_throttle ex_limiter ^^ 3) (limiter_start ex_limiter 1)) = 8
   \<and> currentDelay ((on_throttle ex_limiter ^^ 6) (limiter_start ex_limiter 1)) = 60
   \<and> retryCount (run_task ex_limiter 1 (\<lambda>i. True)) = 3
   \<and> errorKind (run_task ex_limiter 1 (\<lambda>i. True)) = Some ThrottleExhausted
   \<and> delaysApplied (run_task ex_limiter 1 (\<lambda>i. True)) = [1, 2, 4, 8]"
proof -
  have h: "0 \<le> maxDelay ex_limiter" by (simp add: ex_limiter_def)
  have m: "maxRetries ex_limiter = 3" "maxDelay ex_limiter = 60" by (simp_all add: ex_limiter_def)
  note t = rate_limiter_backoff [OF h, where base = 1 and throttled = "\<lambda>i. True"]
  from t [where k = 3] have a: "currentDelay ((on_throttle ex_limiter ^^ 3) (limiter_start ex_limiter 1)) = 8"
    by (simp add: m)
  from t [where k = 6] have b: "currentDelay ((on_throttle ex_limiter ^^ 6) (limiter_start ex_limiter 1)) = 60"
    by (simp add: m)
  from t [where k = 0] have e: "errorKind (run_task ex_limiter 1 (\<lambda>i. True)) = Some ThrottleExhausted"
    by simp
  with t [where k = 0] have c: "retryCount (run_task ex_limiter 1 (\<lambda>i. True)) = 3" by (simp add: m)
  from t [where k = 0] have "delaysApplied (run_task ex_limiter 1 (\<lambda>i. True))
      = map (\<lambda>i. min (1 * 2 ^ i) 60) [0..<Suc 3]"
    unfolding c m by blast
  then have w: "delaysApplied (run_task ex_limiter 1 (\<lambda>i. True)) = [1, 2, 4, 8]"
    by (simp add: upt_rec numeral_eq_Suc)
  from h a b c e w show ?thesis by blast
qed

section \<open>Facts about the breadth-first strategy\<close>

lemma admit_one_bounded:
  assumes "bounded cfg fr"
  shows "bounded cfg (admit_one W cfg t link fr)"
proof (cases "taskDepth t + 1 > maxDepth cfg")
  case True
  with assms show ?thesis by (simp add: admit_one_def)
next
  case False
  then have "taskDepth t + 1 \<le> maxDepth cfg" by simp
  with assms have "bounded cfg
      (fr\<lparr>visited := normalize W link # visited fr,
          queued := queued fr @ [\<lparr>taskUrl = link, taskDepth = taskDepth t + 1,
                                    originDomain = originDomain t\<rparr>]\<rparr>)"
    by (simp add: bounded_def)
  with assms show ?thesis by (simp add: admit_one_def)
qed

lemma admit_links_bounded:
  "bounded cfg fr \<Longrightarrow> bounded cfg (admit_links W cfg t links fr)"
  by (induction links arbitrary: fr) (simp_all add: admit_one_bounded)

lemma crawl_level_bounded:
  "bounded cfg fr \<Longrightarrow> \<forall>t \<in> set ts. taskDepth t \<le> maxDepth cfg
     \<Longrightarrow> bounded cfg (crawl_level W cfg ts fr)"
proof (induction ts arbitrary: fr)
  case Nil
  then show ?case by simp
next
  case (Cons t ts)
  let ?p = "fetch W (taskUrl t)"
  let ?fr1 = "fr\<lparr>outcomes := outcomes fr
                 @ [\<lparr>outUrl = taskUrl t, outDepth = taskDepth t, outPage = ?p\<rparr>]\<rparr>"
  from Cons.prems have ts: "\<forall>t \<in> set ts. taskDepth t \<le> maxDepth cfg" by simp
  show ?case
  proof (cases "budget_left cfg fr")
    case False
    then have "crawl_level W cfg (t # ts) fr = fr" by simp
    with Cons.prems(1) show ?thesis by simp
  next
    case budget: True
    show ?thesis
    proof (cases "retain_page W cfg (taskUrl t) ?p")
      case False
      with budget have "crawl_level W cfg (t # ts) fr = crawl_level W cfg ts fr"
        by (simp add: Let_def)
      with Cons.IH [OF Cons.prems(1) ts] show ?thesis by simp
    next
      case keep: True
      from Cons.prems have b1: "bounded cfg ?fr1" by (simp add: bounded_def)
      show ?thesis
      proof (cases "pageSuccess ?p")
        case True
        with budget keep have "crawl_level W cfg (t # ts) fr
            = crawl_level W cfg ts (admit_links W cfg t (discoveredLinks ?p) ?fr1)"
          by (simp add: Let_def)
        with Cons.IH [OF admit_links_bounded [OF b1] ts] show ?thesis by simp
      next
        case False
        with budget keep have "crawl_level W cfg (t # ts) fr = crawl_level W cfg ts ?fr1"
          by (simp add: Let_def)
        with Cons.IH [OF b1 ts] show ?thesis by simp
      qed
    qed
  qed
qed

lemma crawl_levels_bounded:
  "bounded cfg fr \<Longrightarrow> \<forall>t \<in> set level. taskDepth t \<le> maxDepth cfg
     \<Longrightarrow> bounded cfg (crawl_levels W cfg n level fr)"
proof (induction n arbitrary: level fr)
  case 0
  then show ?case by simp
next
  case (Suc n)
  let ?fr1 = "crawl_level W cfg level (fr\<lparr>queued := []\<rparr>)"
  show ?case
  proof (cases "level = []")
    case True
    with Suc.prems(1) show ?thesis by simp
  next
    case False
    from Suc.prems(1) have "bounded cfg (fr\<lparr>queued := []\<rparr>)" by (simp add: bounded_def)
    then have b: "bounded cfg ?fr1" using Suc.prems(2) by (rule crawl_level_bounded)
    then have q: "\<forall>t \<in> set (queued ?fr1). taskDepth t \<le> maxDepth cfg"
      by (simp add: bounded_def)
    from False have "crawl_levels W cfg (Suc n) level fr = crawl_levels W cfg n (queued ?fr1) ?fr1"
      by (simp add: Let_def)
    with Suc.IH [OF b q] show ?thesis by simp
  qed
qed

lemma crawl_bounded: "out \<in> set (crawl W cfg start) \<Longrightarrow> outDepth out \<le> maxDepth cfg"
proof -
  have "bounded cfg (crawl_levels W cfg (Suc (maxDepth cfg))
                 [\<lparr>taskUrl = start, taskDepth = 0, originDomain = domain_of W start\<rparr>]
                 \<lparr>visited = [normalize W start], outcomes = [], queued = []\<rparr>)"
    by (rule crawl_levels_bounded) (simp_all add: bounded_def)
  then show "out \<in> set (crawl W cfg start) \<Longrightarrow> outDepth out \<le> maxDepth cfg"
    by (simp add: crawl_def bounded_def)
qed

lemma depth_of_deliver: "depth_of (deliver out) = int (outDepth out)"
  by (simp add: depth_of_def deliver_def)


lemma admit_one_next:
  "next_level_ok cfg (taskDepth t) fr \<Longrightarrow> next_level_ok cfg (taskDepth t) (admit_one W cfg t link fr)"
  by (simp add: admit_one_def next_level_ok_def)

lemma admit_links_next:
  "next_level_ok cfg (taskDepth t) fr \<Longrightarrow> next_level_ok cfg (taskDepth t) (admit_links W cfg t links fr)"
  by (induction links arbitrary: fr) (simp_all add: admit_one_next)

lemma crawl_level_next:
  "next_level_ok cfg d fr \<Longrightarrow> \<forall>t \<in> set ts. taskDepth t = d
     \<Longrightarrow> next_level_ok cfg d (crawl_level W cfg ts fr)"
proof (induction ts arbitrary: fr)
  case Nil
  then show ?case by simp
next
  case (Cons t ts)
  let ?p = "fetch W (taskUrl t)"
  let ?fr1 = "fr\<lparr>outcomes := outcomes fr
                 @ [\<lparr>outUrl = taskUrl t, outDepth = taskDepth t, outPage = ?p\<rparr>]\<rparr>"
  from Cons.prems have ts: "\<forall>t \<in> set ts. taskDepth t = d" and d: "taskDepth t = d" by simp_all
  from Cons.prems(1) have b1: "next_level_ok cfg d ?fr1" by (simp add: next_level_ok_def)
  then have b2: "next_level_ok cfg d (admit_links W cfg t (discoveredLinks ?p) ?fr1)"
    using admit_links_next [of cfg t ?fr1 W] by (simp add: d)
  show ?case
  proof (cases "budget_left cfg fr")
    case False
    then have "crawl_level W cfg (t # ts) fr = fr" by simp
    with Cons.prems(1) show ?thesis by simp
  next
    case budget: True
    show ?thesis
    proof (cases "retain_page W cfg (taskUrl t) ?p")
      case False
      with budget have "crawl_level W cfg (t # ts) fr = crawl_level W cfg ts fr"
        by (simp add: Let_def)
      with Cons.IH [OF Cons.prems(1) ts] show ?thesis by simp
    next
      case keep: True
      show ?thesis
      proof (cases "pageSuccess ?p")
        case True
        with budget keep have "crawl_level W cfg (t # ts) fr
            = crawl_level W cfg ts (admit_links W cfg t (discoveredLinks ?p) ?fr1)"
          by (simp add: Let_def)
        with Cons.IH [OF b2 ts] show ?thesis by simp
      next
        case False
        with budget keep have "crawl_level W cfg (t # ts) fr = crawl_level W cfg ts ?fr1"
          by (simp add: Let_def)
        with Cons.IH [OF b1 ts] show ?thesis by simp
      qed
    qed
  qed
qed

lemma crawl_levels_Nil: "crawl_levels W cfg n [] fr = fr"
  by (cases n) simp_all

text \<open>More levels than \<open>maxDepth + 1\<close> change nothing: the frontier is exhausted by then.\<close>

lemma crawl_levels_more:
  "\<forall>t \<in> set level. taskDepth t = d \<and> d \<le> maxDepth cfg \<Longrightarrow> Suc (maxDepth cfg) \<le> d + n
     \<Longrightarrow> crawl_levels W cfg (n + k) level fr = crawl_levels W cfg n level fr"
proof (induction n arbitrary: level fr d)
  case 0
  then have "level = []" by (cases level) auto
  then show ?case by (simp add: crawl_levels_Nil)
next
  case (Suc n)
  let ?fr1 = "crawl_level W cfg level (fr\<lparr>queued := []\<rparr>)"
  show ?case
  proof (cases "level = []")
    case True
    then show ?thesis by simp
  next
    case False
    have "next_level_ok cfg d (fr\<lparr>queued := []\<rparr>)" by (simp add: next_level_ok_def)
    then have "next_level_ok cfg d ?fr1"
      using Suc.prems(1) by (intro crawl_level_next) simp_all
    then have q: "\<forall>t \<in> set (queued ?fr1). taskDepth t = Suc d \<and> Suc d \<le> maxDepth cfg"
      by (simp add: next_level_ok_def)
    from Suc.prems(2) have le: "Suc (maxDepth cfg) \<le> Suc d + n" by simp
    from Suc.IH [OF q le] False show ?thesis by (simp add: Let_def)
  qed
qed

lemma crawl_more_levels:
  "outcomes (crawl_levels W cfg (Suc (maxDepth cfg) + k)
               [\<lparr>taskUrl = start, taskDepth = 0, originDomain = domain_of W start\<rparr>]
               \<lparr>visited = [normalize W start], outcomes = [], queued = []\<rparr>)
     = crawl W cfg start"
  unfolding crawl_def by (subst crawl_levels_more [where d = 0]) simp_all

section \<open>Claims about the depth of the outcomes\<close>

text \<open>
  C5. For every crawl configured with maximum depth \<open>d\<close>, no outcome of the strategy
  has a depth greater than \<open>d\<close>, and every depth under which the script groups the
  delivered results is at most \<open>d\<close>.
\<close>

theorem crawl_depth_bounded:
  "(\<forall>out \<in> set (crawl W cfg start). outDepth out \<le> maxDepth cfg)
   \<and> (\<forall>(d, us) \<in> set (group_loop (map deliver (crawl W cfg start)) []).
         d \<le> int (maxDepth cfg))"
proof (intro conjI ballI)
  fix out assume "out \<in> set (crawl W cfg start)"
  then show "outDepth out \<le> maxDepth cfg" by (rule crawl_bounded)
next
  fix x assume x: "x \<in> set (group_loop (map deliver (crawl W cfg start)) [])"
  then have "fst x \<in> fst ` set (group_loop (map deliver (crawl W cfg start)) [])" by simp
  then have "fst x \<in> depth_of ` set (map deliver (crawl W cfg start))"
    by (simp only: group_loop_keys) simp
  then obtain out where out: "out \<in> set (crawl W cfg start)" and "fst x = depth_of (deliver out)"
    by auto
  then have "fst x = int (outDepth out)" by (simp add: depth_of_deliver)
  with crawl_bounded [OF out] have "fst x \<le> int (maxDepth cfg)" by simp
  then show "case x of (d, us) \<Rightarrow> d \<le> int (maxDepth cfg)" by (cases x) simp
qed

lemma ex_crawl:
  "map (\<lambda>out. (outUrl out, outDepth out)) (crawl ex_web ex_crawl_config (py ''https://example.com''))
     = [(py ''https://example.com'', 0), (py ''https://example.com/a'', 1),
        (py ''https://example.com/b'', 1)]"
  by (simp add: crawl_def ex_web_def ex_crawl_config_def admit_one_def admit_link_def
      retain_page_def admit_def budget_left_def py_def Let_def)



text \<open>The scenario of the spec with maximum depth 1: the root at depth 0, its two pages at depth 1.\<close>

theorem crawl_depth_bounded_witness:
  "map (\<lambda>out. (outUrl out, outDepth out)) (crawl ex_web ex_crawl_config (py ''https://example.com''))
     = [(py ''https://example.com'', 0), (py ''https://example.com/a'', 1),
        (py ''https://example.com/b'', 1)]
   \<and> list_all (\<lambda>out. outDepth out \<le> 1) (crawl ex_web ex_crawl_config (py ''https://example.com''))
   \<and> group_loop (map deliver (crawl ex_web ex_crawl_config (py ''https://example.com''))) []
     = [(0, [py ''https://example.com'']),
        (1, [py ''https://example.com/a'', py ''https://example.com/b''])]"
proof -
  from crawl_depth_bounded [of ex_web ex_crawl_config "py ''https://example.com''"]
  have "list_all (\<lambda>out. outDepth out \<le> maxDepth ex_crawl_config)
          (crawl ex_web ex_crawl_config (py ''https://example.com''))"
    by (simp add: list_all_iff)
  then have 1: "list_all (\<lambda>out. outDepth out \<le> 1)
          (crawl ex_web ex_crawl_config (py ''https://example.com''))"
    by (simp add: ex_crawl_config_def)
  have 2: "group_loop (map deliver (crawl ex_web ex_crawl_config (py ''https://example.com''))) []
     = [(0, [py ''https://example.com'']),
        (1, [py ''https://example.com/a'', py ''https://example.com/b''])]"
    by (simp add: crawl_def ex_web_def ex_crawl_config_def admit_one_def admit_link_def
      retain_page_def admit_def budget_left_def py_def Let_def deliver_def record_page_def
      depth_of_def)
  from ex_crawl 1 2 show ?thesis by blast
qed

end
